theory Spec2Isabelle
  imports Main "HOL-Library.Word"
begin

section \<open>The shard summer of the query frontend (package astmapper, shard\_summer.go)\<close>

text \<open>
  The file shard\_summer.go rewrites a PromQL syntax tree: a parallelisable \<open>sum\<close> is
  split into one leg per shard, every selector of a leg gets a matcher on the reserved
  label \<open>__cortex_shard__\<close>, and the legs are handed to a squasher. This theory embeds
  its functions and proves properties of them.

  Go's \<open>int\<close> is a 64-bit two's complement integer here: \<open>64 word\<close>, read with
  \<open>sint\<close> and compared with \<open><s\<close> and \<open>\<le>s\<close>. A function that returns
  \<open>(value, error)\<close> returns a pair whose second component is \<open>None\<close> for Go's
  \<open>nil\<close> error.
\<close>

subsection \<open>Errors\<close>

text \<open>
  One constructor per error the file builds, \<open>NumError\<close> for the two errors of
  \<open>strconv.Atoi\<close>, \<open>External\<close> for an error made by a collaborator that is passed in
  (the squasher, the node cloner, the tree mapper), and \<open>RuntimePanic\<close> for a Go panic
  (an index out of range, a failed type assertion, a panic of the counter or of its
  registration). Every caller in the file returns an error at once when it gets one, so a
  panic, which unwinds through all of them, is carried as an error value too.
\<close>

datatype numErr = ErrSyntax | ErrRange

datatype error =
    SquasherRequired
  | InvalidSelectorType string
  | InvalidShardLabelValue string
  | ShardsOutOfBounds "64 word" "64 word"
  | NumError string numErr
  | External string
  | RuntimePanic string

subsection \<open>Strings: the format \<open>%d\<close>, \<open>strconv.Atoi\<close>, \<open>strings.Split\<close>, the regular expression\<close>

definition isDigit :: "char \<Rightarrow> bool" where
  "isDigit c = (48 \<le> (of_char c :: int) \<and> (of_char c :: int) \<le> 57)"

definition digitChar :: "int \<Rightarrow> char" where
  "digitChar d = char_of (48 + d)"

definition digitVal :: "char \<Rightarrow> int" where
  "digitVal c = of_char c - 48"

text \<open>
  The decimal digits of a number that is not negative, most significant first, without
  padding.
\<close>

function formatDecimal :: "int \<Rightarrow> string" where
  "formatDecimal n =
     (if n < 10 then [digitChar n] else formatDecimal (n div 10) @ [digitChar (n mod 10)])"
  by pat_completeness auto
termination
  by (relation "measure nat") auto

declare formatDecimal.simps [simp del]

text \<open>The verb \<open>%d\<close> of \<open>fmt.Sprintf\<close> on an \<open>int\<close>: a minus sign for a negative value.\<close>

definition formatInt :: "64 word \<Rightarrow> string" where
  "formatInt w =
     (if sint w < 0 then CHR ''-'' # formatDecimal (- sint w) else formatDecimal (sint w))"

definition parseDecimal :: "string \<Rightarrow> int" where
  "parseDecimal ds = foldl (\<lambda>acc c. 10 * acc + digitVal c) 0 ds"

text \<open>
  \<open>strconv.Atoi\<close>: an optional sign, then one or more decimal digits; a syntax error
  (value 0) for anything else, a range error (with the nearest bound as value) when the
  number does not fit 64 bits.
\<close>

definition Atoi :: "string \<Rightarrow> 64 word \<times> error option" where
  "Atoi s =
     (let neg = (s \<noteq> [] \<and> hd s = CHR ''-'');
          ds = (if s \<noteq> [] \<and> (hd s = CHR ''-'' \<or> hd s = CHR ''+'') then tl s else s)
      in if ds = [] \<or> \<not> list_all isDigit ds then (0, Some (NumError s ErrSyntax))
         else if \<not> neg \<and> 2 ^ 63 \<le> parseDecimal ds
           then (word_of_int (2 ^ 63 - 1), Some (NumError s ErrRange))
         else if neg \<and> 2 ^ 63 < parseDecimal ds
           then (word_of_int (- (2 ^ 63)), Some (NumError s ErrRange))
         else (word_of_int (if neg then - parseDecimal ds else parseDecimal ds), None))"

text \<open>\<open>strings.Split\<close> with a separator of one character.\<close>

fun Split :: "string \<Rightarrow> char \<Rightarrow> string list" where
  "Split [] sep = [[]]"
| "Split (c # cs) sep =
     (if c = sep then [] # Split cs sep
      else (case Split cs sep of [] \<Rightarrow> [[c]] | w # ws \<Rightarrow> (c # w) # ws))"

definition ShardLabel :: string where
  "ShardLabel = ''__cortex_shard__''"

text \<open>
  \<open>ShardLabelRE.MatchString\<close> for the expression \<open>^[0-9]+_of_[0-9]+$\<close>: the longest
  prefix of digits is not empty, \<open>_of_\<close> follows it, and the rest is one or more digits.
\<close>

definition ShardLabelRE_MatchString :: "string \<Rightarrow> bool" where
  "ShardLabelRE_MatchString s =
     (let a = takeWhile isDigit s; r = dropWhile isDigit s
      in a \<noteq> [] \<and> take 4 r = ''_of_'' \<and> drop 4 r \<noteq> [] \<and> list_all isDigit (drop 4 r))"

subsection \<open>The shard annotation and its codec\<close>

record shardAnnotation =
  Shard :: "64 word"
  Of :: "64 word"

text \<open>\<open>fmt.Sprintf(ShardLabelFmt, a, b)\<close> with \<open>ShardLabelFmt = "%d_of_%d"\<close>.\<close>

definition Sprintf_ShardLabelFmt :: "64 word \<Rightarrow> 64 word \<Rightarrow> string" where
  "Sprintf_ShardLabelFmt a b = formatInt a @ ''_of_'' @ formatInt b"

text \<open>\<open>ShardAnnotation.String\<close>.\<close>

definition String :: "shardAnnotation \<Rightarrow> string" where
  "String shard = Sprintf_ShardLabelFmt (Shard shard) (Of shard)"

text \<open>
  \<open>ParseShard\<close>. The named result \<open>parsed\<close> is the zero annotation on every error
  return. The two index expressions \<open>matches[0]\<close> and \<open>matches[2]\<close> panic when the
  split has fewer than three parts.
\<close>

definition ParseShard :: "string \<Rightarrow> shardAnnotation \<times> error option" where
  "ParseShard input =
     (let parsed = \<lparr>Shard = 0, Of = 0\<rparr> in
      if \<not> ShardLabelRE_MatchString input then (parsed, Some (InvalidShardLabelValue input))
      else
        let matches = Split input CHR ''_'' in
        if length matches < 3 then (parsed, Some (RuntimePanic ''index out of range''))
        else
          (case Atoi (matches ! 0) of
             (x, Some err) \<Rightarrow> (parsed, Some err)
           | (x, None) \<Rightarrow>
               (case Atoi (matches ! 2) of
                  (of', Some err) \<Rightarrow> (parsed, Some err)
                | (of', None) \<Rightarrow>
                    if of' \<le>s x then (parsed, Some (ShardsOutOfBounds x of'))
                    else (\<lparr>Shard = x, Of = of'\<rparr>, None))))"

subsection \<open>Matchers and syntax tree nodes\<close>

text \<open>
  The packages \<open>labels\<close> and \<open>promql\<close> belong to Prometheus, not to this repository.
  Their types are modelled with the fields the file reads or writes. A \<open>promql.Node\<close>
  is an interface value: \<open>NilNode\<close> is the nil interface, \<open>Aggregate\<close>, \<open>Vector\<close>
  and \<open>Matrix\<close> hold the three pointer types the file switches on, and \<open>OtherNode\<close>
  stands for every other expression (a binary expression, a call, a literal, ...) with its
  Go type name and its children.
\<close>

datatype matchType = MatchEqual | MatchNotEqual | MatchRegexp | MatchNotRegexp

record matcher =
  Type :: matchType
  Name :: string
  Value :: string

record positionRange =
  Start :: "64 word"
  End :: "64 word"

record vectorSelector =
  Name :: string
  Offset :: "64 word"
  LabelMatchers :: "matcher list"
  PosRange :: positionRange

text \<open>
  The aggregation operators among the item types of the lexer. \<open>SUM\<close>, \<open>MIN\<close> and
  \<open>MAX\<close> are written with a prime, the plain names being HOL syntax.
\<close>

datatype itemType =
  SUM' | AVG | COUNT | MIN' | MAX' | STDDEV | STDVAR | TOPK | BOTTOMK | COUNT_VALUES | QUANTILE

datatype node =
    NilNode
  | Aggregate aggregateExpr
  | Vector vectorSelector
  | Matrix matrixSelector
  | OtherNode string "node list"
and aggregateExpr =
  AggregateExpr (Op: itemType) (Expr: node) (Param: node) (Grouping: "string list") (Without: bool)
and matrixSelector =
  MatrixSelector (VectorSelector: node) (Range: "64 word") (EndPos: "64 word")

text \<open>The verb \<open>%T\<close>: the name of the dynamic type of an interface value.\<close>

fun typeName :: "node \<Rightarrow> string" where
  "typeName NilNode = ''<nil>''"
| "typeName (Aggregate n) = ''*promql.AggregateExpr''"
| "typeName (Vector n) = ''*promql.VectorSelector''"
| "typeName (Matrix n) = ''*promql.MatrixSelector''"
| "typeName (OtherNode k ns) = k"

text \<open>
  \<open>labels.NewMatcher\<close>. The library compiles the value of a regexp matcher and can
  fail there; the file builds equality matchers only, for which it returns the matcher and
  no error, and that is what the definition gives.
\<close>

definition NewMatcher :: "matchType \<Rightarrow> string \<Rightarrow> string \<Rightarrow> matcher \<times> error option" where
  "NewMatcher t n v = (\<lparr>Type = t, Name = n, Value = v\<rparr>, None)"

subsection \<open>The selector sharder\<close>

text \<open>
  \<open>shardVectorSelector\<close> builds a new selector from \<open>Name\<close>, \<open>Offset\<close> and the
  extended matcher list; the composite literal does not mention \<open>PosRange\<close>, which
  therefore has its zero value.
\<close>

definition shardVectorSelector :: "64 word \<Rightarrow> 64 word \<Rightarrow> vectorSelector \<Rightarrow> node \<times> error option" where
  "shardVectorSelector curshard shards selector =
     (case NewMatcher MatchEqual ShardLabel (Sprintf_ShardLabelFmt curshard shards) of
        (shardMatcher, Some err) \<Rightarrow> (NilNode, Some err)
      | (shardMatcher, None) \<Rightarrow>
          (Vector \<lparr>Name = vectorSelector.Name selector,
                   Offset = Offset selector,
                   LabelMatchers = shardMatcher # LabelMatchers selector,
                   PosRange = \<lparr>Start = 0, End = 0\<rparr>\<rparr>, None))"

definition shardMatrixSelector :: "64 word \<Rightarrow> 64 word \<Rightarrow> matrixSelector \<Rightarrow> node \<times> error option" where
  "shardMatrixSelector curshard shards selector =
     (case NewMatcher MatchEqual ShardLabel (Sprintf_ShardLabelFmt curshard shards) of
        (shardMatcher, Some err) \<Rightarrow> (NilNode, Some err)
      | (shardMatcher, None) \<Rightarrow>
          (case VectorSelector selector of
             Vector vs \<Rightarrow>
               (Matrix (MatrixSelector
                  (Vector \<lparr>Name = vectorSelector.Name vs,
                           Offset = Offset vs,
                           LabelMatchers = shardMatcher # LabelMatchers vs,
                           PosRange = PosRange vs\<rparr>)
                  (Range selector) (EndPos selector)), None)
           | other \<Rightarrow> (NilNode, Some (InvalidSelectorType (typeName other)))))"

subsection \<open>Finding the shard matcher\<close>

text \<open>
  \<open>ShardFromMatchers\<close>: the loop over the matchers with its index. The annotation is a
  pointer in Go, \<open>None\<close> for nil.
\<close>

fun ShardFromMatchers_from :: "nat \<Rightarrow> matcher list \<Rightarrow> shardAnnotation option \<times> nat \<times> error option" where
  "ShardFromMatchers_from i [] = (None, 0, None)"
| "ShardFromMatchers_from i (m # ms) =
     (if matcher.Name m = ShardLabel \<and> Type m = MatchEqual then
        (case ParseShard (Value m) of
           (shard, Some err) \<Rightarrow> (None, i, Some err)
         | (shard, None) \<Rightarrow> (Some shard, i, None))
      else ShardFromMatchers_from (Suc i) ms)"

definition ShardFromMatchers :: "matcher list \<Rightarrow> shardAnnotation option \<times> nat \<times> error option" where
  "ShardFromMatchers matchers = ShardFromMatchers_from 0 matchers"

subsection \<open>The shard summer\<close>

text \<open>
  The counter \<open>shardedQueries\<close> belongs to the Prometheus client library. The summer
  never reads it; it only calls \<open>Add\<close>. A function that can reach the counter therefore
  returns, next to its result, the list of the amounts that \<open>Add\<close> has added, in order.
  The summer passes \<open>float64(summer.shards)\<close>; the amounts are the values of these
  floating point numbers, which are integers.
\<close>

datatype counter = NewCounter (Namespace: string) (CounterName: string) (Help: string)

text \<open>
  The conversion \<open>float64(n)\<close> of an \<open>int\<close>: the nearest number with a significand of
  53 bits, the even one of two that are equally near. Its value is an integer. \<open>bitLen\<close>
  is the number of binary digits of a positive number.
\<close>

function bitLen :: "int \<Rightarrow> nat" where
  "bitLen a = (if a \<le> 0 then 0 else Suc (bitLen (a div 2)))"
  by pat_completeness auto
termination
  by (relation "measure nat") auto

declare bitLen.simps [simp del]

definition roundToFloat64 :: "int \<Rightarrow> int" where
  "roundToFloat64 a =
     (let e = bitLen a - 53 in
      if e = 0 then a
      else
        let q = a div 2 ^ e; r = a mod 2 ^ e; h = 2 ^ (e - 1)
        in (if h < r \<or> (r = h \<and> odd q) then q + 1 else q) * 2 ^ e)"

definition float64 :: "64 word \<Rightarrow> int" where
  "float64 n = (if sint n < 0 then - roundToFloat64 (- sint n) else roundToFloat64 (sint n))"

text \<open>
  \<open>Counter.Add\<close>: the counter panics when the amount is negative (\<open>counter cannot
  decrease in value\<close>) and adds the amount otherwise.
\<close>

definition Add :: "int \<Rightarrow> int list \<Rightarrow> error option \<times> int list" where
  "Add v adds =
     (if v < 0 then (Some (RuntimePanic ''counter cannot decrease in value''), adds)
      else (None, adds @ [v]))"

text \<open>
  A registerer is nil (\<open>None\<close>) or a registry, modelled by the fully qualified names of
  the collectors registered with it. \<open>promauto.With(registerer).NewCounter\<close> builds the
  counter and, when the registerer is not nil, registers it with \<open>MustRegister\<close>, which
  panics when the registry already holds a collector of that name.
\<close>

type_synonym registry = "string list"

definition BuildFQName :: "string \<Rightarrow> string \<Rightarrow> string" where
  "BuildFQName namespace name =
     (if name = [] then [] else if namespace \<noteq> [] then namespace @ ''_'' @ name else name)"

definition promauto_NewCounter ::
  "registry option \<Rightarrow> counter \<Rightarrow> (counter \<times> error option) \<times> registry option" where
  "promauto_NewCounter registerer c =
     (case registerer of
        None \<Rightarrow> ((c, None), None)
      | Some reg \<Rightarrow>
          if BuildFQName (Namespace c) (CounterName c) \<in> set reg
          then ((c, Some (RuntimePanic ''duplicate metrics collector registration attempted'')),
                Some reg)
          else ((c, None), Some (reg @ [BuildFQName (Namespace c) (CounterName c)])))"

record shardSummer =
  shards :: "64 word"
  currentShard :: "64 word option"
  squash :: "node list \<Rightarrow> node \<times> error option"
  shardedQueries :: counter

text \<open>
  Three functions of package astmapper that the file calls are defined in other files
  of the package: the predicate \<open>CanParallelize\<close>, the cloner \<open>CloneNode\<close>, and the
  method \<open>Map\<close> of the mapper that \<open>NewASTNodeMapper\<close> wraps around a summer. They
  are parameters of the model: every theorem below holds for every choice of them.
  \<open>Map\<close> takes the summer it wraps and returns the amounts it added to the counter,
  since it calls back into \<open>MapNode\<close>.
\<close>

record externals =
  CanParallelize :: "node \<Rightarrow> bool"
  CloneNode :: "node \<Rightarrow> node \<times> error option"
  Map :: "shardSummer \<Rightarrow> node \<Rightarrow> (node \<times> error option) \<times> int list"

text \<open>
  \<open>NewShardSummer\<close>. A nil squasher is \<open>None\<close>. The result is the summer that
  \<open>NewASTNodeMapper\<close> wraps, \<open>None\<close> for the nil mapper returned with the error, and
  the registerer after the call. The squasher is checked before the counter is made.
\<close>

definition NewShardSummer ::
  "64 word \<Rightarrow> (node list \<Rightarrow> node \<times> error option) option \<Rightarrow> registry option \<Rightarrow>
     (shardSummer option \<times> error option) \<times> registry option" where
  "NewShardSummer shards' squasher registerer =
     (case squasher of
        None \<Rightarrow> ((None, Some SquasherRequired), registerer)
      | Some sq \<Rightarrow>
          (case promauto_NewCounter registerer
                  (NewCounter ''cortex'' ''frontend_sharded_queries_total''
                     ''Total number of sharded queries'') of
             ((c, Some panic), registerer') \<Rightarrow> ((None, Some panic), registerer')
           | ((c, None), registerer') \<Rightarrow>
               ((Some \<lparr>shards = shards',
                       currentShard = None,
                       squash = sq,
                       shardedQueries = c\<rparr>, None), registerer')))"

definition CopyWithCurShard :: "shardSummer \<Rightarrow> 64 word \<Rightarrow> shardSummer" where
  "CopyWithCurShard summer curshard = summer\<lparr>currentShard := Some curshard\<rparr>"

text \<open>
  The loop of \<open>splitSum\<close>, from index \<open>i\<close> on, with the children and the counter
  amounts collected so far. The type assertion \<open>sharded.(promql.Expr)\<close> panics on the
  nil interface; every other node of the model is an expression.
\<close>

function splitSum_loop ::
  "externals \<Rightarrow> shardSummer \<Rightarrow> aggregateExpr \<Rightarrow> (aggregateExpr \<Rightarrow> node) \<Rightarrow>
     64 word \<Rightarrow> node list \<Rightarrow> int list \<Rightarrow> (node list \<times> error option) \<times> int list" where
  "splitSum_loop env summer expr mkChild i children adds =
     (if i <s shards summer then
        (case CloneNode env (Expr expr) of
           (cloned, Some err) \<Rightarrow> ((children, Some err), adds)
         | (cloned, None) \<Rightarrow>
             (case Map env (CopyWithCurShard summer i) cloned of
                ((sharded, Some err), added) \<Rightarrow> ((children, Some err), adds @ added)
              | ((sharded, None), added) \<Rightarrow>
                  if sharded = NilNode
                  then ((children, Some (RuntimePanic ''interface conversion: interface is nil'')),
                        adds @ added)
                  else splitSum_loop env summer expr mkChild (i + 1)
                         (children @ [mkChild (AggregateExpr (Op expr) sharded NilNode [] False)])
                         (adds @ added)))
      else ((children, None), adds))"
  by pat_completeness auto
termination
proof (relation "measure (\<lambda>(env, summer, expr, mkChild, i, children, adds).
                    nat (sint (shards summer) - sint i))")
  show "wf (measure (\<lambda>(env, summer, expr, mkChild, i, children, adds).
                    nat (sint (shards summer) - sint i)))"
    by simp
next
  fix env :: externals and summer :: shardSummer and expr :: aggregateExpr
    and mkChild :: "aggregateExpr \<Rightarrow> node" and i :: "64 word"
    and children :: "node list" and adds :: "int list"
  assume "i <s shards summer"
  then have lt: "sint i < sint (shards summer)"
    by (simp add: word_sless_alt)
  have "sint (shards summer) < 2 ^ 63" "- (2 ^ 63) \<le> sint i"
    using sint_lt [of "shards summer"] sint_ge [of i] by simp_all
  with lt have b: "- (2 ^ 63) \<le> sint i + 1" "sint i + 1 < 2 ^ 63"
    by linarith+
  have "sint (i + 1) = signed_take_bit (LENGTH(64) - 1) (sint i + sint (1 :: 64 word))"
    by (rule sint_word_add)
  also have "\<dots> = sint i + 1"
    using b by (simp add: signed_take_bit_int_eq_self)
  finally have "sint (i + 1) = sint i + 1" .
  with lt show "((env, summer, expr, mkChild, i + 1,
                   children @ [mkChild (AggregateExpr (Op expr) sharded NilNode [] False)],
                   adds @ added),
                  (env, summer, expr, mkChild, i, children, adds))
                \<in> measure (\<lambda>(env, summer, expr, mkChild, i, children, adds).
                    nat (sint (shards summer) - sint i))"
    for sharded added
    by simp
qed

declare splitSum_loop.simps [simp del]

text \<open>
  The first part of \<open>splitSum\<close>, up to the loop: the parent and the closure
  \<open>mkChild\<close>, chosen by the grouping of \<open>expr\<close>. The parent is built with \<open>Op\<close>
  and \<open>Param\<close> only; its \<open>Expr\<close> stays nil until \<open>shardSum\<close> sets it. A closure
  assigns \<open>Grouping\<close> (and \<open>Without\<close> in the first branch) of the node it is given.
\<close>

definition splitSum_shapes :: "aggregateExpr \<Rightarrow> aggregateExpr \<times> (aggregateExpr \<Rightarrow> node)" where
  "splitSum_shapes expr =
     (if Without expr then
        (AggregateExpr (Op expr) NilNode (Param expr) [ShardLabel] True,
         \<lambda>sharded. Aggregate (AggregateExpr (Op sharded) (Expr sharded) (Param sharded)
                                (Grouping expr) True))
      else if length (Grouping expr) > 0 then
        (AggregateExpr (Op expr) NilNode (Param expr) (Grouping expr) False,
         \<lambda>sharded. Aggregate (AggregateExpr (Op sharded) (Expr sharded) (Param sharded)
                                (Grouping expr @ [ShardLabel]) (Without sharded)))
      else
        (AggregateExpr (Op expr) NilNode (Param expr) [ShardLabel] True,
         \<lambda>sharded. Aggregate (AggregateExpr (Op sharded) (Expr sharded) (Param sharded)
                                [ShardLabel] (Without sharded))))"

text \<open>
  \<open>splitSum\<close> returns the parent, the children and the error, all three on every path.
  After the loop, on the path without error, it calls
  \<open>shardedQueries.Add(float64(summer.shards))\<close>, which panics for a negative count.
\<close>

definition splitSum ::
  "externals \<Rightarrow> shardSummer \<Rightarrow> aggregateExpr \<Rightarrow>
     (aggregateExpr \<times> node list \<times> error option) \<times> int list" where
  "splitSum env summer expr =
     (let (parent, mkChild) = splitSum_shapes expr
      in case splitSum_loop env summer expr mkChild 0 [] [] of
           ((children, Some err), adds) \<Rightarrow> ((parent, children, Some err), adds)
         | ((children, None), adds) \<Rightarrow>
             (case Add (float64 (shards summer)) adds of
                (Some panic, adds') \<Rightarrow> ((parent, children, Some panic), adds')
              | (None, adds') \<Rightarrow> ((parent, children, None), adds')))"

text \<open>\<open>shardSum\<close>: split, squash the legs, and put the result into the parent.\<close>

definition shardSum ::
  "externals \<Rightarrow> shardSummer \<Rightarrow> aggregateExpr \<Rightarrow> (node \<times> error option) \<times> int list" where
  "shardSum env summer expr =
     (case splitSum env summer expr of
        ((parent, subSums, Some err), adds) \<Rightarrow> ((NilNode, Some err), adds)
      | ((parent, subSums, None), adds) \<Rightarrow>
          (case squash summer subSums of
             (combinedSums, Some err) \<Rightarrow> ((NilNode, Some err), adds)
           | (combinedSums, None) \<Rightarrow>
               ((Aggregate (AggregateExpr (Op parent) combinedSums (Param parent)
                              (Grouping parent) (Without parent)), None), adds)))"

text \<open>\<open>MapNode\<close>: the rewrite of one node, with the flag that tells the mapper to stop.\<close>

definition MapNode ::
  "externals \<Rightarrow> shardSummer \<Rightarrow> node \<Rightarrow> (node \<times> bool \<times> error option) \<times> int list" where
  "MapNode env summer node =
     (case node of
        Aggregate n \<Rightarrow>
          if CanParallelize env (Aggregate n) \<and> Op n = SUM' then
            (case shardSum env summer n of
               ((result, err), adds) \<Rightarrow> ((result, True, err), adds))
          else ((Aggregate n, False, None), [])
      | Vector n \<Rightarrow>
          (case currentShard summer of
             Some cur \<Rightarrow>
               (case shardVectorSelector cur (shards summer) n of
                  (mapped, err) \<Rightarrow> ((mapped, True, err), []))
           | None \<Rightarrow> ((Vector n, True, None), []))
      | Matrix n \<Rightarrow>
          (case currentShard summer of
             Some cur \<Rightarrow>
               (case shardMatrixSelector cur (shards summer) n of
                  (mapped, err) \<Rightarrow> ((mapped, True, err), []))
           | None \<Rightarrow> ((Matrix n, True, None), []))
      | _ \<Rightarrow> ((node, False, None), []))"

subsection \<open>Notions used in the statements\<close>

text \<open>
  The call of the mapper that the loop of \<open>splitSum\<close> makes for shard \<open>j\<close>: on the
  clone of the inner expression, with the summer bound to \<open>j\<close>. A leg is fine when the
  mapper returns no error and a node that is not nil.
\<close>

definition shardLeg ::
  "externals \<Rightarrow> shardSummer \<Rightarrow> aggregateExpr \<Rightarrow> nat \<Rightarrow> (node \<times> error option) \<times> int list" where
  "shardLeg env summer expr j =
     Map env (CopyWithCurShard summer (word_of_nat j)) (fst (CloneNode env (Expr expr)))"

definition legOk :: "externals \<Rightarrow> shardSummer \<Rightarrow> aggregateExpr \<Rightarrow> nat \<Rightarrow> bool" where
  "legOk env summer expr j =
     (snd (fst (shardLeg env summer expr j)) = None
      \<and> fst (fst (shardLeg env summer expr j)) \<noteq> NilNode)"

subsection \<open>Concrete inputs\<close>

text \<open>
  The inputs at which the theorems are instantiated: the selector
  \<open>bar1{baz="blip"}\<close>, the sum over it, a summer, a squasher that wraps the legs and
  one that fails, and collaborators: a cloner that copies, one that fails, a mapper that
  shards a selector at the root as \<open>MapNode\<close> does, a mapper that returns nil and no
  error, and a mapper that adds 2 to the counter in every leg and fails in the leg of
  shard 1.
\<close>

definition exampleSelector :: vectorSelector where
  "exampleSelector =
     \<lparr>Name = ''bar1'', Offset = 0,
      LabelMatchers = [\<lparr>Type = MatchEqual, Name = ''baz'', Value = ''blip''\<rparr>],
      PosRange = \<lparr>Start = 4, End = 20\<rparr>\<rparr>"

definition exampleSum :: "string list \<Rightarrow> bool \<Rightarrow> aggregateExpr" where
  "exampleSum grouping without =
     AggregateExpr SUM' (Vector exampleSelector) NilNode grouping without"

definition exampleSquash :: "node list \<Rightarrow> node \<times> error option" where
  "exampleSquash legs = (OtherNode ''legs'' legs, None)"

definition failingSquash :: "node list \<Rightarrow> node \<times> error option" where
  "failingSquash legs = (NilNode, Some (External ''squash failed''))"

definition exampleSummer :: "64 word \<Rightarrow> (node list \<Rightarrow> node \<times> error option) \<Rightarrow> shardSummer" where
  "exampleSummer n sq =
     \<lparr>shards = n, currentShard = None, squash = sq,
      shardedQueries =
        NewCounter ''cortex'' ''frontend_sharded_queries_total''
          ''Total number of sharded queries''\<rparr>"

definition exampleEnv :: externals where
  "exampleEnv =
     \<lparr>CanParallelize = (\<lambda>n. True),
      CloneNode = (\<lambda>n. (n, None)),
      Map = (\<lambda>summer n.
               (case n of
                  Vector v \<Rightarrow>
                    (case currentShard summer of
                       Some cur \<Rightarrow> shardVectorSelector cur (shards summer) v
                     | None \<Rightarrow> (n, None))
                | _ \<Rightarrow> (n, None), []))\<rparr>"

definition cloneFailEnv :: externals where
  "cloneFailEnv = exampleEnv\<lparr>CloneNode := (\<lambda>n. (NilNode, Some (External ''clone failed'')))\<rparr>"

definition nilLegEnv :: externals where
  "nilLegEnv = exampleEnv\<lparr>Map := (\<lambda>summer n. ((NilNode, None), []))\<rparr>"

definition legFailEnv :: externals where
  "legFailEnv =
     exampleEnv\<lparr>Map := (\<lambda>summer n.
                         if currentShard summer = Some 1
                         then ((NilNode, Some (External ''map failed'')), [2])
                         else ((n, None), [2]))\<rparr>"

section \<open>Properties\<close>

subsection \<open>Digits, numbers and strings\<close>

lemma of_char_digitChar: "0 \<le> d \<Longrightarrow> d < 10 \<Longrightarrow> (of_char (digitChar d) :: int) = 48 + d"
  by (simp add: digitChar_def take_bit_int_eq_self)

lemma isDigit_digitChar: "0 \<le> d \<Longrightarrow> d < 10 \<Longrightarrow> isDigit (digitChar d)"
  by (simp add: isDigit_def of_char_digitChar)

lemma digitVal_digitChar: "0 \<le> d \<Longrightarrow> d < 10 \<Longrightarrow> digitVal (digitChar d) = d"
  by (simp add: digitVal_def of_char_digitChar)

lemma formatDecimal_digits: "0 \<le> n \<Longrightarrow> list_all isDigit (formatDecimal n)"
proof (induction n rule: formatDecimal.induct)
  case (1 n)
  show ?case
  proof (cases "n < 10")
    case True
    with 1(2) show ?thesis by (subst formatDecimal.simps) (simp add: isDigit_digitChar)
  next
    case False
    with 1 have "list_all isDigit (formatDecimal (n div 10))" by simp
    with False 1(2) show ?thesis
      by (subst formatDecimal.simps) (simp add: isDigit_digitChar)
  qed
qed

lemma formatDecimal_nonempty: "formatDecimal n \<noteq> []"
  by (subst formatDecimal.simps) simp

lemma parseDecimal_snoc: "parseDecimal (ds @ [c]) = 10 * parseDecimal ds + digitVal c"
  by (simp add: parseDecimal_def)

lemma parseDecimal_formatDecimal: "0 \<le> n \<Longrightarrow> parseDecimal (formatDecimal n) = n"
proof (induction n rule: formatDecimal.induct)
  case (1 n)
  show ?case
  proof (cases "n < 10")
    case True
    with 1(2) show ?thesis
      by (subst formatDecimal.simps) (simp add: parseDecimal_def digitVal_digitChar)
  next
    case False
    with 1 have "parseDecimal (formatDecimal (n div 10)) = n div 10" by simp
    with False 1(2) show ?thesis
      by (subst formatDecimal.simps) (simp add: parseDecimal_snoc digitVal_digitChar)
  qed
qed

lemma not_isDigit_underscore: "\<not> isDigit CHR ''_''"
  by (simp add: isDigit_def)

lemma not_isDigit_signs: "\<not> isDigit CHR ''-''" "\<not> isDigit CHR ''+''"
  by (simp_all add: isDigit_def)

lemma Split_no_sep: "sep \<notin> set a \<Longrightarrow> Split a sep = [a]"
  by (induction a) auto

lemma Split_append: "sep \<notin> set a \<Longrightarrow> Split (a @ sep # r) sep = a # Split r sep"
  by (induction a) auto

lemma digits_no_underscore: "list_all isDigit a \<Longrightarrow> CHR ''_'' \<notin> set a"
  using not_isDigit_underscore by (auto simp: list_all_iff)

lemma Split_label:
  assumes "list_all isDigit a" "list_all isDigit b"
  shows "Split (a @ ''_of_'' @ b) CHR ''_'' = [a, ''of'', b]"
proof -
  have "Split (a @ CHR ''_'' # (''of'' @ CHR ''_'' # b)) CHR ''_'' = a # Split (''of'' @ CHR ''_'' # b) CHR ''_''"
    using assms(1) by (intro Split_append digits_no_underscore)
  moreover have "Split (''of'' @ CHR ''_'' # b) CHR ''_'' = ''of'' # Split b CHR ''_''"
    by (rule Split_append) simp
  moreover have "Split b CHR ''_'' = [b]"
    using assms(2) by (intro Split_no_sep digits_no_underscore)
  ultimately show ?thesis by simp
qed

lemma MatchString_iff:
  "ShardLabelRE_MatchString s \<longleftrightarrow>
     (\<exists>a b. s = a @ ''_of_'' @ b \<and> a \<noteq> [] \<and> b \<noteq> [] \<and> list_all isDigit a \<and> list_all isDigit b)"
proof
  assume m: "ShardLabelRE_MatchString s"
  let ?a = "takeWhile isDigit s" and ?r = "dropWhile isDigit s"
  from m have a: "?a \<noteq> []" and t: "take 4 ?r = ''_of_''" and b: "drop 4 ?r \<noteq> []"
    and d: "list_all isDigit (drop 4 ?r)"
    by (simp_all add: ShardLabelRE_MatchString_def Let_def)
  have "s = ?a @ ?r" by simp
  also have "?r = take 4 ?r @ drop 4 ?r" by simp
  finally have "s = ?a @ ''_of_'' @ drop 4 ?r" using t by simp
  moreover have "list_all isDigit ?a" by (simp add: list_all_iff) (meson set_takeWhileD)
  ultimately show "\<exists>a b. s = a @ ''_of_'' @ b \<and> a \<noteq> [] \<and> b \<noteq> [] \<and> list_all isDigit a \<and> list_all isDigit b"
    using a b d by blast
next
  assume "\<exists>a b. s = a @ ''_of_'' @ b \<and> a \<noteq> [] \<and> b \<noteq> [] \<and> list_all isDigit a \<and> list_all isDigit b"
  then obtain a b where s: "s = a @ ''_of_'' @ b" and a: "a \<noteq> []" and b: "b \<noteq> []"
    and da: "list_all isDigit a" and db: "list_all isDigit b" by blast
  have tw: "takeWhile isDigit s = a" unfolding s
    using da not_isDigit_underscore by (simp add: list_all_iff takeWhile_tail)
  have dw: "dropWhile isDigit s = ''_of_'' @ b" unfolding s
    using da not_isDigit_underscore by (simp add: list_all_iff dropWhile_append3)
  show "ShardLabelRE_MatchString s"
    using a b db by (simp add: ShardLabelRE_MatchString_def Let_def tw dw)
qed

lemma Atoi_digits:
  assumes "ds \<noteq> []" "list_all isDigit ds"
  shows "Atoi ds = (if 2 ^ 63 \<le> parseDecimal ds
                    then (word_of_int (2 ^ 63 - 1), Some (NumError ds ErrRange))
                    else (word_of_int (parseDecimal ds), None))"
proof -
  from assms obtain c cs where ds: "ds = c # cs" and c: "isDigit c" by (cases ds) auto
  from c have "c \<noteq> CHR ''-''" "c \<noteq> CHR ''+''" using not_isDigit_signs by auto
  then show ?thesis using assms by (simp add: Atoi_def ds)
qed

lemma digitVal_nonneg: "isDigit c \<Longrightarrow> 0 \<le> digitVal c"
  by (simp add: isDigit_def digitVal_def)

lemma parseDecimal_nonneg: "list_all isDigit ds \<Longrightarrow> 0 \<le> parseDecimal ds"
proof (induction ds rule: rev_induct)
  case Nil
  show ?case by (simp add: parseDecimal_def)
next
  case (snoc c ds)
  then have "0 \<le> parseDecimal ds" "0 \<le> digitVal c"
    by (simp_all add: digitVal_nonneg)
  then show ?case by (simp add: parseDecimal_snoc)
qed

lemma sint_word_of_int_64:
  assumes "0 \<le> n" "n < 2 ^ 63"
  shows "sint (word_of_int n :: 64 word) = n"
proof -
  have "sint (word_of_int n :: 64 word) = signed_take_bit (LENGTH(64) - 1) n"
    by (rule sint_sbintrunc')
  also have "\<dots> = n"
    using assms by (intro signed_take_bit_int_eq_self) simp_all
  finally show ?thesis .
qed

lemma sint_bounds_64: "sint (w :: 64 word) < 2 ^ 63" "- (2 ^ 63) \<le> sint w"
  using sint_lt [of w] sint_ge [of w] by simp_all

lemma formatInt_nonneg: "0 \<le>s w \<Longrightarrow> formatInt w = formatDecimal (sint w)"
  by (simp add: formatInt_def word_sle_eq)

lemma Atoi_formatDecimal:
  assumes "0 \<le> n" "n < 2 ^ 63"
  shows "Atoi (formatDecimal n) = (word_of_int n, None)"
proof -
  have "\<not> 2 ^ 63 \<le> parseDecimal (formatDecimal n)"
    using assms by (simp add: parseDecimal_formatDecimal not_le)
  then show ?thesis
    unfolding Atoi_digits [OF formatDecimal_nonempty formatDecimal_digits [OF assms(1)]]
    using assms(1) by (simp add: parseDecimal_formatDecimal)
qed

lemma Atoi_formatInt:
  assumes "0 \<le>s w"
  shows "Atoi (formatInt w) = (w, None)"
proof -
  have "0 \<le> sint w" using assms by (simp add: word_sle_eq)
  with Atoi_formatDecimal [OF this sint_bounds_64(1)] show ?thesis
    unfolding formatInt_nonneg [OF assms] by simp
qed

lemma Atoi_digits_nonneg:
  assumes "ds \<noteq> []" "list_all isDigit ds" "Atoi ds = (x, None)"
  shows "0 \<le>s x" "sint x = parseDecimal ds"
proof -
  from assms have lt: "parseDecimal ds < 2 ^ 63" and x: "x = word_of_int (parseDecimal ds)"
    by (auto simp: Atoi_digits split: if_splits)
  from parseDecimal_nonneg [OF assms(2)] lt show "sint x = parseDecimal ds"
    unfolding x by (rule sint_word_of_int_64)
  with parseDecimal_nonneg [OF assms(2)] show "0 \<le>s x" by (simp add: word_sle_eq)
qed

lemma formatDecimal_0: "formatDecimal 0 = ''0''"
  by code_simp

lemma digitChar_neq_zero: "0 < d \<Longrightarrow> d < 10 \<Longrightarrow> digitChar d \<noteq> CHR ''0''"
proof
  assume d: "0 < d" "d < 10" and e: "digitChar d = CHR ''0''"
  have "(of_char (digitChar d) :: int) = 48 + d" using d by (simp add: of_char_digitChar)
  with e d show False by simp
qed

lemma formatDecimal_no_padding: "0 < n \<Longrightarrow> hd (formatDecimal n) \<noteq> CHR ''0''"
proof (induction n rule: formatDecimal.induct)
  case (1 n)
  show ?case
  proof (cases "n < 10")
    case True
    with 1(2) show ?thesis by (subst formatDecimal.simps) (simp add: digitChar_neq_zero)
  next
    case False
    then have "0 < n div 10" by simp
    with 1(1) False have "hd (formatDecimal (n div 10)) \<noteq> CHR ''0''" by simp
    with False show ?thesis
      by (subst formatDecimal.simps) (simp add: formatDecimal_nonempty)
  qed
qed

lemma ParseShard_label:
  assumes "a \<noteq> []" "b \<noteq> []" "list_all isDigit a" "list_all isDigit b"
  shows "ParseShard (a @ ''_of_'' @ b) =
           (case Atoi a of
              (x, Some err) \<Rightarrow> (\<lparr>Shard = 0, Of = 0\<rparr>, Some err)
            | (x, None) \<Rightarrow>
                (case Atoi b of
                   (y, Some err) \<Rightarrow> (\<lparr>Shard = 0, Of = 0\<rparr>, Some err)
                 | (y, None) \<Rightarrow>
                     if y \<le>s x then (\<lparr>Shard = 0, Of = 0\<rparr>, Some (ShardsOutOfBounds x y))
                     else (\<lparr>Shard = x, Of = y\<rparr>, None)))"
proof -
  have m: "ShardLabelRE_MatchString (a @ ''_of_'' @ b)"
    unfolding MatchString_iff using assms by blast
  have sp: "Split (a @ ''_of_'' @ b) CHR ''_'' = [a, ''of'', b]"
    using assms by (intro Split_label)
  show ?thesis
    unfolding ParseShard_def Let_def sp using m by simp
qed

subsection \<open>The codec\<close>

text \<open>
  Claim C6. For every pair of Go integers with \<open>0 \<le> shard < of\<close>, decoding the encoding
  gives the annotation back with no error: \<open>ParseShard (String {shard, of}) = ({shard, of}, nil)\<close>.
  The encoding is \<open><shard>_of_<of>\<close> in decimal without padding: both halves are
  digit strings that denote the two numbers, and a half that starts with \<open>0\<close> is \<open>0\<close>.
\<close>

theorem ParseShard_String_roundtrip:
  assumes "0 \<le>s shard" "shard <s of'"
  shows "ParseShard (String \<lparr>Shard = shard, Of = of'\<rparr>) = (\<lparr>Shard = shard, Of = of'\<rparr>, None)
         \<and> (\<exists>a b. String \<lparr>Shard = shard, Of = of'\<rparr> = a @ ''_of_'' @ b
               \<and> a \<noteq> [] \<and> b \<noteq> [] \<and> list_all isDigit a \<and> list_all isDigit b
               \<and> parseDecimal a = sint shard \<and> parseDecimal b = sint of'
               \<and> (hd a = CHR ''0'' \<longrightarrow> a = ''0'') \<and> (hd b = CHR ''0'' \<longrightarrow> b = ''0''))"
proof -
  let ?a = "formatDecimal (sint shard)" and ?b = "formatDecimal (sint of')"
  from assms have nn: "0 \<le>s of'" "0 \<le> sint shard" "0 \<le> sint of'"
    by (simp_all add: word_sle_eq word_sless_alt)
  have s: "String \<lparr>Shard = shard, Of = of'\<rparr> = ?a @ ''_of_'' @ ?b"
    using assms(1) nn(1) by (simp add: String_def Sprintf_ShardLabelFmt_def formatInt_nonneg)
  have aa: "Atoi ?a = (shard, None)" "Atoi ?b = (of', None)"
    using Atoi_formatInt [OF assms(1)] Atoi_formatInt [OF nn(1)] assms(1) nn(1)
    by (simp_all add: formatInt_nonneg)
  have d: "list_all isDigit ?a" "list_all isDigit ?b"
    using nn by (simp_all add: formatDecimal_digits)
  have "\<not> of' \<le>s shard"
    using assms(2) by (simp add: word_sle_eq word_sless_alt)
  then have "ParseShard (?a @ ''_of_'' @ ?b) = (\<lparr>Shard = shard, Of = of'\<rparr>, None)"
    unfolding ParseShard_label [OF formatDecimal_nonempty formatDecimal_nonempty d] aa
    by simp
  moreover have "hd (formatDecimal n) = CHR ''0'' \<longrightarrow> formatDecimal n = ''0''" if "0 \<le> n" for n
  proof (cases "n = 0")
    case True
    then show ?thesis by (simp add: formatDecimal_0)
  next
    case False
    with that show ?thesis using formatDecimal_no_padding [of n] by simp
  qed
  ultimately show ?thesis
    unfolding s using nn d
    by (intro conjI exI [of _ ?a] exI [of _ ?b])
       (simp_all add: formatDecimal_nonempty parseDecimal_formatDecimal)
qed

theorem ParseShard_String_roundtrip_witness:
  "(0 :: 64 word) \<le>s 2 \<and> (2 :: 64 word) <s 4
   \<and> ParseShard (String \<lparr>Shard = 2, Of = 4\<rparr>) = (\<lparr>Shard = 2, Of = 4\<rparr>, None)
   \<and> String \<lparr>Shard = 2, Of = 4\<rparr> = ''2_of_4''"
proof -
  have h: "(0 :: 64 word) \<le>s 2" "(2 :: 64 word) <s 4"
    by (simp_all add: word_sle_eq word_sless_alt)
  have "String \<lparr>Shard = 2, Of = 4\<rparr> = ''2_of_4''" by code_simp
  with h ParseShard_String_roundtrip [OF h] show ?thesis by simp
qed

text \<open>
  Claim C7. \<open>ParseShard\<close> fails unless the input is one or more digits, \<open>_of_\<close>, and one
  or more digits, with both halves accepted by \<open>Atoi\<close> as numbers that are not negative
  and the first below the second; an input of another shape gets the error for an invalid
  label value; an input of that shape whose halves parse, the first not below the second,
  gets the bounds error. \<open>2_of_4\<close> decodes to \<open>{2, 4}\<close>, \<open>4_of_4\<close> is out of bounds,
  \<open>a_of_4\<close> is an invalid value.
\<close>

theorem ParseShard_decode:
  "(snd (ParseShard s) = None \<longrightarrow>
      (\<exists>a b. s = a @ ''_of_'' @ b \<and> a \<noteq> [] \<and> b \<noteq> []
         \<and> list_all isDigit a \<and> list_all isDigit b
         \<and> Atoi a = (Shard (fst (ParseShard s)), None)
         \<and> Atoi b = (Of (fst (ParseShard s)), None)
         \<and> sint (Shard (fst (ParseShard s))) = parseDecimal a
         \<and> sint (Of (fst (ParseShard s))) = parseDecimal b
         \<and> 0 \<le>s Shard (fst (ParseShard s))
         \<and> Shard (fst (ParseShard s)) <s Of (fst (ParseShard s))))
   \<and> (\<not> (\<exists>a b. s = a @ ''_of_'' @ b \<and> a \<noteq> [] \<and> b \<noteq> []
              \<and> list_all isDigit a \<and> list_all isDigit b) \<longrightarrow>
        ParseShard s = (\<lparr>Shard = 0, Of = 0\<rparr>, Some (InvalidShardLabelValue s)))
   \<and> (\<forall>a b x y. s = a @ ''_of_'' @ b \<and> a \<noteq> [] \<and> b \<noteq> []
          \<and> list_all isDigit a \<and> list_all isDigit b
          \<and> Atoi a = (x, None) \<and> Atoi b = (y, None) \<and> y \<le>s x \<longrightarrow>
        ParseShard s = (\<lparr>Shard = 0, Of = 0\<rparr>, Some (ShardsOutOfBounds x y)))
   \<and> ParseShard ''2_of_4'' = (\<lparr>Shard = 2, Of = 4\<rparr>, None)
   \<and> ParseShard ''4_of_4'' = (\<lparr>Shard = 0, Of = 0\<rparr>, Some (ShardsOutOfBounds 4 4))
   \<and> ParseShard ''a_of_4'' = (\<lparr>Shard = 0, Of = 0\<rparr>, Some (InvalidShardLabelValue ''a_of_4''))"
proof (intro conjI impI allI)
  assume ok: "snd (ParseShard s) = None"
  have "ShardLabelRE_MatchString s"
  proof (rule ccontr)
    assume "\<not> ShardLabelRE_MatchString s"
    then have "snd (ParseShard s) = Some (InvalidShardLabelValue s)"
      by (simp add: ParseShard_def)
    with ok show False by simp
  qed
  then obtain a b where s: "s = a @ ''_of_'' @ b" and ne: "a \<noteq> []" "b \<noteq> []"
    and d: "list_all isDigit a" "list_all isDigit b"
    unfolding MatchString_iff by blast
  note p = ParseShard_label [OF ne d]
  obtain x ex where xa: "Atoi a = (x, ex)" by (cases "Atoi a")
  obtain y ey where yb: "Atoi b = (y, ey)" by (cases "Atoi b")
  from ok have ex: "ex = None"
    unfolding s p xa by (cases ex) simp_all
  from ok have ey: "ey = None"
    unfolding s p xa yb ex by (cases ey) simp_all
  from ok have lt: "\<not> y \<le>s x"
    unfolding s p xa yb ex ey by (cases "y \<le>s x") simp_all
  then have r: "ParseShard s = (\<lparr>Shard = x, Of = y\<rparr>, None)"
    unfolding s p xa yb ex ey by simp
  have "0 \<le>s x" "sint x = parseDecimal a"
    using Atoi_digits_nonneg [OF ne(1) d(1)] xa ex by simp_all
  moreover have "sint y = parseDecimal b"
    using Atoi_digits_nonneg [OF ne(2) d(2)] yb ey by simp
  moreover have "x <s y" using lt by (simp add: word_sle_eq word_sless_alt)
  ultimately show "\<exists>a b. s = a @ ''_of_'' @ b \<and> a \<noteq> [] \<and> b \<noteq> []
         \<and> list_all isDigit a \<and> list_all isDigit b
         \<and> Atoi a = (Shard (fst (ParseShard s)), None)
         \<and> Atoi b = (Of (fst (ParseShard s)), None)
         \<and> sint (Shard (fst (ParseShard s))) = parseDecimal a
         \<and> sint (Of (fst (ParseShard s))) = parseDecimal b
         \<and> 0 \<le>s Shard (fst (ParseShard s))
         \<and> Shard (fst (ParseShard s)) <s Of (fst (ParseShard s))"
    using s ne d xa yb ex ey unfolding r
    by (intro exI [of _ a] exI [of _ b]) simp
next
  assume "\<not> (\<exists>a b. s = a @ ''_of_'' @ b \<and> a \<noteq> [] \<and> b \<noteq> []
              \<and> list_all isDigit a \<and> list_all isDigit b)"
  then have "\<not> ShardLabelRE_MatchString s"
    unfolding MatchString_iff .
  then show "ParseShard s = (\<lparr>Shard = 0, Of = 0\<rparr>, Some (InvalidShardLabelValue s))"
    by (simp add: ParseShard_def)
next
  fix a b x y
  assume h: "s = a @ ''_of_'' @ b \<and> a \<noteq> [] \<and> b \<noteq> []
          \<and> list_all isDigit a \<and> list_all isDigit b
          \<and> Atoi a = (x, None) \<and> Atoi b = (y, None) \<and> y \<le>s x"
  then have p: "ParseShard (a @ ''_of_'' @ b) =
           (case Atoi a of
              (x, Some err) \<Rightarrow> (\<lparr>Shard = 0, Of = 0\<rparr>, Some err)
            | (x, None) \<Rightarrow>
                (case Atoi b of
                   (y, Some err) \<Rightarrow> (\<lparr>Shard = 0, Of = 0\<rparr>, Some err)
                 | (y, None) \<Rightarrow>
                     if y \<le>s x then (\<lparr>Shard = 0, Of = 0\<rparr>, Some (ShardsOutOfBounds x y))
                     else (\<lparr>Shard = x, Of = y\<rparr>, None)))"
    by (intro ParseShard_label) simp_all
  from h have s: "s = a @ ''_of_'' @ b" and xa: "Atoi a = (x, None)"
    and yb: "Atoi b = (y, None)" and le: "y \<le>s x" by simp_all
  show "ParseShard s = (\<lparr>Shard = 0, Of = 0\<rparr>, Some (ShardsOutOfBounds x y))"
    unfolding s p xa yb using le by simp
next
  show "ParseShard ''2_of_4'' = (\<lparr>Shard = 2, Of = 4\<rparr>, None)"
    by code_simp
next
  show "ParseShard ''4_of_4'' = (\<lparr>Shard = 0, Of = 0\<rparr>, Some (ShardsOutOfBounds 4 4))"
    by code_simp
next
  show "ParseShard ''a_of_4'' = (\<lparr>Shard = 0, Of = 0\<rparr>, Some (InvalidShardLabelValue ''a_of_4''))"
    by code_simp
qed

theorem ParseShard_decode_witness:
  "snd (ParseShard ''2_of_4'') = None
   \<and> Shard (fst (ParseShard ''2_of_4'')) <s Of (fst (ParseShard ''2_of_4''))
   \<and> ParseShard ''1_of_1'' = (\<lparr>Shard = 0, Of = 0\<rparr>, Some (ShardsOutOfBounds 1 1))
   \<and> ParseShard ''a_of_4'' = (\<lparr>Shard = 0, Of = 0\<rparr>, Some (InvalidShardLabelValue ''a_of_4''))"
proof -
  have ok: "snd (ParseShard ''2_of_4'') = None"
    by code_simp
  from ParseShard_decode [of "''2_of_4''"] ok
  have 1: "Shard (fst (ParseShard ''2_of_4'')) <s Of (fst (ParseShard ''2_of_4''))"
    by blast
  have h: "''1_of_1'' = ''1'' @ ''_of_'' @ ''1'' \<and> ''1'' \<noteq> [] \<and> ''1'' \<noteq> []
          \<and> list_all isDigit ''1'' \<and> list_all isDigit ''1''
          \<and> Atoi ''1'' = (1, None) \<and> Atoi ''1'' = (1, None) \<and> (1 :: 64 word) \<le>s 1"
    by code_simp
  from ParseShard_decode [of "''1_of_1''"]
  have "\<forall>a b x y. ''1_of_1'' = a @ ''_of_'' @ b \<and> a \<noteq> [] \<and> b \<noteq> []
          \<and> list_all isDigit a \<and> list_all isDigit b
          \<and> Atoi a = (x, None) \<and> Atoi b = (y, None) \<and> y \<le>s x \<longrightarrow>
        ParseShard ''1_of_1'' = (\<lparr>Shard = 0, Of = 0\<rparr>, Some (ShardsOutOfBounds x y))"
    by blast
  with h have 2: "ParseShard ''1_of_1'' = (\<lparr>Shard = 0, Of = 0\<rparr>, Some (ShardsOutOfBounds 1 1))"
    by blast
  have "\<not> ShardLabelRE_MatchString ''a_of_4''"
    by code_simp
  then have "\<not> (\<exists>a b. ''a_of_4'' = a @ ''_of_'' @ b \<and> a \<noteq> [] \<and> b \<noteq> []
              \<and> list_all isDigit a \<and> list_all isDigit b)"
    unfolding MatchString_iff .
  with ParseShard_decode [of "''a_of_4''"]
  have 3: "ParseShard ''a_of_4'' = (\<lparr>Shard = 0, Of = 0\<rparr>, Some (InvalidShardLabelValue ''a_of_4''))"
    by blast
  from ok 1 2 3 show ?thesis by blast
qed

subsection \<open>Finding the shard matcher\<close>

lemma ShardFromMatchers_from_none:
  "\<forall>m \<in> set ms. \<not> (matcher.Name m = ShardLabel \<and> Type m = MatchEqual) \<Longrightarrow>
     ShardFromMatchers_from i ms = (None, 0, None)"
  by (induction ms arbitrary: i) auto

lemma ShardFromMatchers_from_first:
  assumes "\<forall>p \<in> set pre. \<not> (matcher.Name p = ShardLabel \<and> Type p = MatchEqual)"
    and "matcher.Name m = ShardLabel" "Type m = MatchEqual"
  shows "ShardFromMatchers_from i (pre @ m # post) =
           (case ParseShard (Value m) of
              (shard, Some err) \<Rightarrow> (None, i + length pre, Some err)
            | (shard, None) \<Rightarrow> (Some shard, i + length pre, None))"
  using assms by (induction pre arbitrary: i) auto

text \<open>
  Claim C8. \<open>ShardFromMatchers\<close> scans the list from the front. With no equality matcher
  on the shard label it returns nil, index 0 and no error. Otherwise, for the first such
  matcher, at index \<open>length pre\<close>: when its value decodes, the annotation and the index;
  when it does not, nil, the index and the error of \<open>ParseShard\<close>.
\<close>

theorem ShardFromMatchers_first:
  "((\<forall>m \<in> set matchers. \<not> (matcher.Name m = ShardLabel \<and> Type m = MatchEqual)) \<longrightarrow>
      ShardFromMatchers matchers = (None, 0, None))
   \<and> (\<forall>pre m post.
        matchers = pre @ m # post
        \<and> (\<forall>p \<in> set pre. \<not> (matcher.Name p = ShardLabel \<and> Type p = MatchEqual))
        \<and> matcher.Name m = ShardLabel \<and> Type m = MatchEqual \<longrightarrow>
        (\<forall>shard. ParseShard (Value m) = (shard, None) \<longrightarrow>
           ShardFromMatchers matchers = (Some shard, length pre, None))
        \<and> (\<forall>shard err. ParseShard (Value m) = (shard, Some err) \<longrightarrow>
           ShardFromMatchers matchers = (None, length pre, Some err)))"
proof (intro conjI impI allI)
  assume "\<forall>m \<in> set matchers. \<not> (matcher.Name m = ShardLabel \<and> Type m = MatchEqual)"
  then show "ShardFromMatchers matchers = (None, 0, None)"
    unfolding ShardFromMatchers_def by (rule ShardFromMatchers_from_none)
next
  fix pre m post shard
  assume h: "matchers = pre @ m # post
        \<and> (\<forall>p \<in> set pre. \<not> (matcher.Name p = ShardLabel \<and> Type p = MatchEqual))
        \<and> matcher.Name m = ShardLabel \<and> Type m = MatchEqual"
    and p: "ParseShard (Value m) = (shard, None)"
  from h have "ShardFromMatchers_from 0 (pre @ m # post) =
           (case ParseShard (Value m) of
              (shard, Some err) \<Rightarrow> (None, 0 + length pre, Some err)
            | (shard, None) \<Rightarrow> (Some shard, 0 + length pre, None))"
    by (intro ShardFromMatchers_from_first) simp_all
  with h p show "ShardFromMatchers matchers = (Some shard, length pre, None)"
    by (simp add: ShardFromMatchers_def)
next
  fix pre m post shard err
  assume h: "matchers = pre @ m # post
        \<and> (\<forall>p \<in> set pre. \<not> (matcher.Name p = ShardLabel \<and> Type p = MatchEqual))
        \<and> matcher.Name m = ShardLabel \<and> Type m = MatchEqual"
    and p: "ParseShard (Value m) = (shard, Some err)"
  from h have "ShardFromMatchers_from 0 (pre @ m # post) =
           (case ParseShard (Value m) of
              (shard, Some err) \<Rightarrow> (None, 0 + length pre, Some err)
            | (shard, None) \<Rightarrow> (Some shard, 0 + length pre, None))"
    by (intro ShardFromMatchers_from_first) simp_all
  with h p show "ShardFromMatchers matchers = (None, length pre, Some err)"
    by (simp add: ShardFromMatchers_def)
qed

theorem ShardFromMatchers_first_witness:
  "ShardFromMatchers [\<lparr>Type = MatchEqual, Name = ''job'', Value = ''x''\<rparr>] = (None, 0, None)
   \<and> ShardFromMatchers
        [\<lparr>Type = MatchEqual, Name = ''job'', Value = ''x''\<rparr>,
         \<lparr>Type = MatchEqual, Name = ShardLabel, Value = ''2_of_4''\<rparr>,
         \<lparr>Type = MatchEqual, Name = ShardLabel, Value = ''3_of_4''\<rparr>]
       = (Some \<lparr>Shard = 2, Of = 4\<rparr>, 1, None)
   \<and> ShardFromMatchers
        [\<lparr>Type = MatchNotEqual, Name = ShardLabel, Value = ''0_of_4''\<rparr>,
         \<lparr>Type = MatchEqual, Name = ShardLabel, Value = ''4_of_4''\<rparr>]
       = (None, 1, Some (ShardsOutOfBounds 4 4))"
proof -
  let ?job = "\<lparr>Type = MatchEqual, Name = ''job'', Value = ''x''\<rparr>"
  let ?m2 = "\<lparr>Type = MatchEqual, Name = ShardLabel, Value = ''2_of_4''\<rparr>"
  let ?m3 = "\<lparr>Type = MatchEqual, Name = ShardLabel, Value = ''3_of_4''\<rparr>"
  let ?n0 = "\<lparr>Type = MatchNotEqual, Name = ShardLabel, Value = ''0_of_4''\<rparr>"
  let ?m4 = "\<lparr>Type = MatchEqual, Name = ShardLabel, Value = ''4_of_4''\<rparr>"
  have a: "\<forall>m \<in> set [?job]. \<not> (matcher.Name m = ShardLabel \<and> Type m = MatchEqual)"
    by (simp add: ShardLabel_def)
  from ShardFromMatchers_first [of "[?job]"] a
  have 1: "ShardFromMatchers [?job] = (None, 0, None)"
    by blast
  have b: "[?job, ?m2, ?m3] = [?job] @ ?m2 # [?m3]
        \<and> (\<forall>p \<in> set [?job]. \<not> (matcher.Name p = ShardLabel \<and> Type p = MatchEqual))
        \<and> matcher.Name ?m2 = ShardLabel \<and> Type ?m2 = MatchEqual"
    by (simp add: ShardLabel_def)
  have pb: "ParseShard (Value ?m2) = (\<lparr>Shard = 2, Of = 4\<rparr>, None)"
    by code_simp
  from ShardFromMatchers_first [of "[?job, ?m2, ?m3]"] b pb
  have "ShardFromMatchers [?job, ?m2, ?m3] = (Some \<lparr>Shard = 2, Of = 4\<rparr>, length [?job], None)"
    by blast
  then have 2: "ShardFromMatchers [?job, ?m2, ?m3] = (Some \<lparr>Shard = 2, Of = 4\<rparr>, 1, None)"
    by simp
  have c: "[?n0, ?m4] = [?n0] @ ?m4 # []
        \<and> (\<forall>p \<in> set [?n0]. \<not> (matcher.Name p = ShardLabel \<and> Type p = MatchEqual))
        \<and> matcher.Name ?m4 = ShardLabel \<and> Type ?m4 = MatchEqual"
    by simp
  have pc: "ParseShard (Value ?m4) = (\<lparr>Shard = 0, Of = 0\<rparr>, Some (ShardsOutOfBounds 4 4))"
    by code_simp
  from ShardFromMatchers_first [of "[?n0, ?m4]"] c pc
  have "ShardFromMatchers [?n0, ?m4] = (None, length [?n0], Some (ShardsOutOfBounds 4 4))"
    by blast
  then have 3: "ShardFromMatchers [?n0, ?m4] = (None, 1, Some (ShardsOutOfBounds 4 4))"
    by simp
  from 1 2 3 show ?thesis by blast
qed

subsection \<open>The selector sharder and \<open>MapNode\<close>\<close>

text \<open>
  Claim C3. \<open>MapNode\<close> on an aggregate whose operator is \<open>sum\<close> and which
  \<open>CanParallelize\<close> approves returns the result and the error of \<open>shardSum\<close> with the
  flag set; on every other aggregate it returns the node itself, the flag not set, no
  error; and so on every node that is neither an aggregate nor a selector.
\<close>

theorem MapNode_aggregate_or_other:
  "(CanParallelize env (Aggregate n) \<and> Op n = SUM' \<longrightarrow>
      MapNode env summer (Aggregate n) =
        ((fst (fst (shardSum env summer n)), True, snd (fst (shardSum env summer n))),
         snd (shardSum env summer n)))
   \<and> (\<not> (CanParallelize env (Aggregate n) \<and> Op n = SUM') \<longrightarrow>
        MapNode env summer (Aggregate n) = ((Aggregate n, False, None), []))
   \<and> ((\<forall>a. node \<noteq> Aggregate a) \<and> (\<forall>v. node \<noteq> Vector v) \<and> (\<forall>m. node \<noteq> Matrix m) \<longrightarrow>
        MapNode env summer node = ((node, False, None), []))"
  by (cases node) (simp_all add: MapNode_def split: prod.splits)

theorem MapNode_aggregate_or_other_witness:
  "MapNode exampleEnv (exampleSummer 2 exampleSquash) (Aggregate (exampleSum [] False)) =
     ((fst (fst (shardSum exampleEnv (exampleSummer 2 exampleSquash) (exampleSum [] False))),
       True, None), [2])
   \<and> MapNode exampleEnv (exampleSummer 2 exampleSquash)
        (Aggregate (AggregateExpr TOPK (Vector exampleSelector) NilNode [] False)) =
       ((Aggregate (AggregateExpr TOPK (Vector exampleSelector) NilNode [] False), False, None), [])
   \<and> MapNode exampleEnv (exampleSummer 2 exampleSquash) (OtherNode ''*promql.NumberLiteral'' []) =
       ((OtherNode ''*promql.NumberLiteral'' [], False, None), [])"
proof -
  let ?S = "exampleSummer 2 exampleSquash"
  let ?topk = "AggregateExpr TOPK (Vector exampleSelector) NilNode [] False"
  let ?lit = "OtherNode ''*promql.NumberLiteral'' []"
  have a: "CanParallelize exampleEnv (Aggregate (exampleSum [] False)) \<and> Op (exampleSum [] False) = SUM'"
    by (simp add: exampleEnv_def exampleSum_def)
  have e: "snd (fst (shardSum exampleEnv ?S (exampleSum [] False))) = None"
    "snd (shardSum exampleEnv ?S (exampleSum [] False)) = [2]"
    by code_simp+
  have b: "\<not> (CanParallelize exampleEnv (Aggregate ?topk) \<and> Op ?topk = SUM')"
    by simp
  have c: "(\<forall>a. ?lit \<noteq> Aggregate a) \<and> (\<forall>v. ?lit \<noteq> Vector v) \<and> (\<forall>m. ?lit \<noteq> Matrix m)"
    by simp
  from MapNode_aggregate_or_other [of exampleEnv "exampleSum [] False" ?S ?lit] a e c
    MapNode_aggregate_or_other [of exampleEnv ?topk ?S ?lit] b
  show ?thesis by simp
qed

text \<open>
  Claim C4. \<open>MapNode\<close> on a vector selector, with \<open>currentShard\<close> bound to \<open>i\<close>,
  returns a new selector with the name and the offset of the old one and with the matcher
  \<open>__cortex_shard__ = String {i, shards}\<close> in front of the old matchers, the flag set and
  no error; with \<open>currentShard\<close> nil it returns the selector itself, the flag set.
\<close>

theorem MapNode_vector_selector:
  "(currentShard summer = Some i \<longrightarrow>
      MapNode env summer (Vector n) =
        ((Vector \<lparr>Name = vectorSelector.Name n,
                  Offset = Offset n,
                  LabelMatchers =
                    \<lparr>Type = MatchEqual, Name = ShardLabel,
                      Value = String \<lparr>Shard = i, Of = shards summer\<rparr>\<rparr> # LabelMatchers n,
                  PosRange = \<lparr>Start = 0, End = 0\<rparr>\<rparr>, True, None), []))
   \<and> (currentShard summer = None \<longrightarrow>
        MapNode env summer (Vector n) = ((Vector n, True, None), []))"
  by (simp add: MapNode_def shardVectorSelector_def NewMatcher_def String_def)

theorem MapNode_vector_selector_witness:
  "MapNode exampleEnv (CopyWithCurShard (exampleSummer 2 exampleSquash) 1) (Vector exampleSelector) =
     ((Vector \<lparr>Name = ''bar1'', Offset = 0,
               LabelMatchers =
                 [\<lparr>Type = MatchEqual, Name = ''__cortex_shard__'', Value = ''1_of_2''\<rparr>,
                  \<lparr>Type = MatchEqual, Name = ''baz'', Value = ''blip''\<rparr>],
               PosRange = \<lparr>Start = 0, End = 0\<rparr>\<rparr>, True, None), [])
   \<and> MapNode exampleEnv (exampleSummer 2 exampleSquash) (Vector exampleSelector) =
       ((Vector exampleSelector, True, None), [])"
proof -
  let ?S = "exampleSummer 2 exampleSquash"
  have a: "currentShard (CopyWithCurShard ?S 1) = Some 1" "shards (CopyWithCurShard ?S 1) = 2"
    by (simp_all add: CopyWithCurShard_def exampleSummer_def)
  have b: "currentShard ?S = None"
    by (simp add: exampleSummer_def)
  have s: "String \<lparr>Shard = 1, Of = 2\<rparr> = ''1_of_2''"
    by code_simp
  from MapNode_vector_selector [of "CopyWithCurShard ?S 1" 1 exampleEnv exampleSelector] a
    MapNode_vector_selector [of ?S 1 exampleEnv exampleSelector] b
  show ?thesis
    by (simp add: s exampleSelector_def ShardLabel_def)
qed

text \<open>
  Claim C5. \<open>shardMatrixSelector\<close> on a matrix selector whose inner selector is a vector
  selector returns a new matrix selector: the inner selector with the shard matcher in
  front of its matchers and with its name, offset and position range, the range and the
  end position of the matrix selector unchanged. For every other inner node it returns nil
  and the error \<open>invalid selector type\<close> with the type of the inner node.
\<close>

theorem shardMatrixSelector_inner:
  "(VectorSelector selector = Vector vs \<longrightarrow>
      shardMatrixSelector curshard shards' selector =
        (Matrix (MatrixSelector
           (Vector \<lparr>Name = vectorSelector.Name vs,
                    Offset = Offset vs,
                    LabelMatchers =
                      \<lparr>Type = MatchEqual, Name = ShardLabel,
                        Value = String \<lparr>Shard = curshard, Of = shards'\<rparr>\<rparr> # LabelMatchers vs,
                    PosRange = PosRange vs\<rparr>)
           (Range selector) (EndPos selector)), None))
   \<and> ((\<forall>v. VectorSelector selector \<noteq> Vector v) \<longrightarrow>
        shardMatrixSelector curshard shards' selector =
          (NilNode, Some (InvalidSelectorType (typeName (VectorSelector selector)))))"
  by (cases "VectorSelector selector")
     (simp_all add: shardMatrixSelector_def NewMatcher_def String_def)

theorem shardMatrixSelector_inner_witness:
  "shardMatrixSelector 1 2 (MatrixSelector (Vector exampleSelector) 300 25) =
     (Matrix (MatrixSelector
        (Vector \<lparr>Name = ''bar1'', Offset = 0,
                 LabelMatchers =
                   [\<lparr>Type = MatchEqual, Name = ''__cortex_shard__'', Value = ''1_of_2''\<rparr>,
                    \<lparr>Type = MatchEqual, Name = ''baz'', Value = ''blip''\<rparr>],
                 PosRange = \<lparr>Start = 4, End = 20\<rparr>\<rparr>)
        300 25), None)
   \<and> shardMatrixSelector 1 2 (MatrixSelector (OtherNode ''*promql.ParenExpr'' []) 300 25) =
       (NilNode, Some (InvalidSelectorType ''*promql.ParenExpr''))"
proof -
  let ?m = "MatrixSelector (Vector exampleSelector) 300 25"
  let ?p = "MatrixSelector (OtherNode ''*promql.ParenExpr'' []) 300 25"
  have a: "VectorSelector ?m = Vector exampleSelector"
    by simp
  have b: "\<forall>v. VectorSelector ?p \<noteq> Vector v"
    by simp
  have s: "String \<lparr>Shard = 1, Of = 2\<rparr> = ''1_of_2''"
    by code_simp
  from shardMatrixSelector_inner [of ?m exampleSelector 1 2] a
    shardMatrixSelector_inner [of ?p exampleSelector 1 2] b
  show ?thesis
    by (simp add: s exampleSelector_def ShardLabel_def)
qed

text \<open>
  Claim C9. The selector that \<open>shardVectorSelector\<close> returns has the zero position
  range, whatever the position range of the selector it was given. When the same selector
  is the inner selector of a matrix selector, \<open>shardMatrixSelector\<close> returns the same
  rewritten selector but with the position range of the original, inside a matrix selector
  with the range and the end position of the original.
\<close>

theorem selector_position_metadata:
  "\<exists>v. shardVectorSelector curshard shards' selector = (Vector v, None)
       \<and> PosRange v = \<lparr>Start = 0, End = 0\<rparr>
       \<and> (VectorSelector m = Vector selector \<longrightarrow>
            shardMatrixSelector curshard shards' m =
              (Matrix (MatrixSelector (Vector (v\<lparr>PosRange := PosRange selector\<rparr>))
                         (Range m) (EndPos m)), None))"
  by (simp add: shardVectorSelector_def shardMatrixSelector_def NewMatcher_def)

theorem selector_position_metadata_witness:
  "\<exists>v. shardVectorSelector 1 2 exampleSelector = (Vector v, None)
       \<and> PosRange exampleSelector = \<lparr>Start = 4, End = 20\<rparr>
       \<and> PosRange v = \<lparr>Start = 0, End = 0\<rparr>
       \<and> shardMatrixSelector 1 2 (MatrixSelector (Vector exampleSelector) 300 25) =
           (Matrix (MatrixSelector (Vector (v\<lparr>PosRange := \<lparr>Start = 4, End = 20\<rparr>\<rparr>)) 300 25), None)"
proof -
  let ?m = "MatrixSelector (Vector exampleSelector) 300 25"
  have a: "VectorSelector ?m = Vector exampleSelector"
    by simp
  have p: "PosRange exampleSelector = \<lparr>Start = 4, End = 20\<rparr>"
    by (simp add: exampleSelector_def)
  from selector_position_metadata [of 1 2 exampleSelector ?m] a p
  show ?thesis by simp
qed

subsection \<open>The loop of \<open>splitSum\<close>\<close>

lemma sint_word_of_nat_64: "n < 2 ^ 63 \<Longrightarrow> sint (word_of_nat n :: 64 word) = int n"
proof -
  assume n: "n < 2 ^ 63"
  have "sint (word_of_int (int n) :: 64 word) = signed_take_bit (LENGTH(64) - 1) (int n)"
    by (rule sint_sbintrunc')
  also have "\<dots> = int n"
    using n by (intro signed_take_bit_int_eq_self) simp_all
  finally show ?thesis by simp
qed


lemma index_less_shards:
  assumes "k \<le> nat (sint (n :: 64 word))"
  shows "(word_of_nat k :: 64 word) <s n \<longleftrightarrow> k < nat (sint n)"
proof -
  have "int k \<le> sint n \<or> k = 0" using assms by linarith
  then have "k < 2 ^ 63"
    using sint_bounds_64(1) [of n] by (auto simp: nat_less_iff [symmetric] intro: le_less_trans)
  then have "sint (word_of_nat k :: 64 word) = int k" by (rule sint_word_of_nat_64)
  then show ?thesis by (simp add: word_sless_alt) linarith
qed

lemma splitSum_loop_stop:
  "\<not> i <s shards summer \<Longrightarrow>
     splitSum_loop env summer expr mkChild i children adds = ((children, None), adds)"
  by (subst splitSum_loop.simps) simp

lemma splitSum_loop_clone_error:
  "i <s shards summer \<Longrightarrow> snd (CloneNode env (Expr expr)) = Some err \<Longrightarrow>
     splitSum_loop env summer expr mkChild i children adds = ((children, Some err), adds)"
  by (cases "CloneNode env (Expr expr)") (subst splitSum_loop.simps, simp)

lemma splitSum_loop_step:
  assumes "k < nat (sint (shards summer))" "snd (CloneNode env (Expr expr)) = None"
    "legOk env summer expr k"
  shows "splitSum_loop env summer expr mkChild (word_of_nat k) children adds =
           splitSum_loop env summer expr mkChild (word_of_nat (Suc k))
             (children @ [mkChild (AggregateExpr (Op expr) (fst (fst (shardLeg env summer expr k))) NilNode [] False)])
             (adds @ snd (shardLeg env summer expr k))"
proof -
  have lt: "(word_of_nat k :: 64 word) <s shards summer"
    using assms(1) by (simp add: index_less_shards)
  obtain cloned where c: "CloneNode env (Expr expr) = (cloned, None)"
    using assms(2) by (cases "CloneNode env (Expr expr)") simp
  obtain sharded added where m: "Map env (CopyWithCurShard summer (word_of_nat k)) cloned = ((sharded, None), added)"
    and nn: "sharded \<noteq> NilNode"
    using assms(3) c unfolding legOk_def shardLeg_def
    by (cases "Map env (CopyWithCurShard summer (word_of_nat k)) cloned") auto
  have l: "shardLeg env summer expr k = ((sharded, None), added)"
    by (simp add: shardLeg_def c m)
  show ?thesis
    by (subst splitSum_loop.simps) (simp add: lt c m nn l add.commute)
qed

lemma splitSum_loop_leg_error:
  assumes "k < nat (sint (shards summer))" "snd (CloneNode env (Expr expr)) = None"
    "snd (fst (shardLeg env summer expr k)) = Some err"
  shows "splitSum_loop env summer expr mkChild (word_of_nat k) children adds =
           ((children, Some err), adds @ snd (shardLeg env summer expr k))"
proof -
  have lt: "(word_of_nat k :: 64 word) <s shards summer"
    using assms(1) by (simp add: index_less_shards)
  obtain cloned where c: "CloneNode env (Expr expr) = (cloned, None)"
    using assms(2) by (cases "CloneNode env (Expr expr)") simp
  obtain sharded added where m: "Map env (CopyWithCurShard summer (word_of_nat k)) cloned = ((sharded, Some err), added)"
    using assms(3) c unfolding shardLeg_def
    by (cases "Map env (CopyWithCurShard summer (word_of_nat k)) cloned") auto
  have l: "shardLeg env summer expr k = ((sharded, Some err), added)"
    by (simp add: shardLeg_def c m)
  show ?thesis
    by (subst splitSum_loop.simps) (simp add: lt c m l)
qed

lemma splitSum_loop_legs:
  assumes "k \<le> m" "m \<le> nat (sint (shards summer))" "snd (CloneNode env (Expr expr)) = None"
    "\<forall>j. k \<le> j \<and> j < m \<longrightarrow> legOk env summer expr j"
  shows "splitSum_loop env summer expr mkChild (word_of_nat k) children adds =
           splitSum_loop env summer expr mkChild (word_of_nat m)
             (children @ map (\<lambda>j. mkChild (AggregateExpr (Op expr) (fst (fst (shardLeg env summer expr j))) NilNode [] False)) [k..<m])
             (adds @ concat (map (\<lambda>j. snd (shardLeg env summer expr j)) [k..<m]))"
  using assms
proof (induction "m - k" arbitrary: k children adds)
  case 0
  then show ?case by simp
next
  case (Suc d)
  then have lt: "k < m" and ok: "legOk env summer expr k" by simp_all
  have "splitSum_loop env summer expr mkChild (word_of_nat k) children adds =
           splitSum_loop env summer expr mkChild (word_of_nat (Suc k))
             (children @ [mkChild (AggregateExpr (Op expr) (fst (fst (shardLeg env summer expr k))) NilNode [] False)])
             (adds @ snd (shardLeg env summer expr k))"
    using lt Suc.prems(2,3) ok by (intro splitSum_loop_step) simp_all
  also have "\<dots> = splitSum_loop env summer expr mkChild (word_of_nat m)
             ((children @ [mkChild (AggregateExpr (Op expr) (fst (fst (shardLeg env summer expr k))) NilNode [] False)])
                @ map (\<lambda>j. mkChild (AggregateExpr (Op expr) (fst (fst (shardLeg env summer expr j))) NilNode [] False)) [Suc k..<m])
             ((adds @ snd (shardLeg env summer expr k))
                @ concat (map (\<lambda>j. snd (shardLeg env summer expr j)) [Suc k..<m]))"
    using Suc.hyps(2) lt Suc.prems by (intro Suc.hyps(1)) simp_all
  finally show ?case using lt by (simp add: upt_conv_Cons)
qed

lemma splitSum_loop_children:
  assumes "\<forall>c \<in> set children. P c"
    and "\<forall>sharded. P (mkChild (AggregateExpr (Op expr) sharded NilNode [] False))"
  shows "\<forall>c \<in> set (fst (fst (splitSum_loop env summer expr mkChild i children adds))). P c"
  using assms
proof (induction env summer expr mkChild i children adds rule: splitSum_loop.induct)
  case (1 env summer expr mkChild i children adds)
  show ?case
  proof (cases "i <s shards summer")
    case False
    with 1(2) show ?thesis by (simp add: splitSum_loop_stop)
  next
    case lt: True
    obtain cloned cerr where c: "CloneNode env (Expr expr) = (cloned, cerr)"
      by (cases "CloneNode env (Expr expr)")
    obtain sharded merr added where
      m: "Map env (CopyWithCurShard summer i) cloned = ((sharded, merr), added)"
      by (cases "Map env (CopyWithCurShard summer i) cloned") auto
    show ?thesis
    proof (cases "cerr = None \<and> merr = None \<and> sharded \<noteq> NilNode")
      case False
      with 1(2) lt c m show ?thesis
        by (subst splitSum_loop.simps) (auto split: option.splits)
    next
      case True
      have "\<forall>c \<in> set (fst (fst (splitSum_loop env summer expr mkChild (i + 1)
               (children @ [mkChild (AggregateExpr (Op expr) sharded NilNode [] False)])
               (adds @ added)))). P c"
        using lt True 1(2,3)
        by (intro 1(1) [OF _ c [symmetric] _ m [symmetric] refl]) simp_all
      with lt c m True show ?thesis
        by (subst splitSum_loop.simps) simp
    qed
  qed
qed

lemma splitSum_children:
  assumes "\<forall>sharded. P (snd (splitSum_shapes expr) (AggregateExpr (Op expr) sharded NilNode [] False))"
  shows "\<forall>c \<in> set (fst (snd (fst (splitSum env summer expr)))). P c"
proof -
  obtain parent mkChild where sh: "splitSum_shapes expr = (parent, mkChild)"
    by (cases "splitSum_shapes expr")
  have "\<forall>c \<in> set (fst (fst (splitSum_loop env summer expr mkChild 0 [] []))). P c"
    using assms sh by (intro splitSum_loop_children) simp_all
  then show ?thesis
    unfolding splitSum_def sh by (simp add: Add_def split: prod.splits option.splits)
qed

lemma splitSum_parent: "fst (fst (splitSum env summer expr)) = fst (splitSum_shapes expr)"
  unfolding splitSum_def by (simp add: Add_def split: prod.splits option.splits)

text \<open>
  Claim C2. The grouping of the parent and of every child that \<open>splitSum\<close> returns is
  fixed by the grouping of the aggregate alone. With \<open>without (L)\<close>: the parent is
  \<open>without (__cortex_shard__)\<close>, every child \<open>without (L)\<close>. With \<open>by (L)\<close>, \<open>L\<close> not
  empty: the parent is \<open>by (L)\<close>, every child \<open>by (L, __cortex_shard__)\<close>. With no
  grouping: the parent is \<open>without (__cortex_shard__)\<close>, every child
  \<open>by (__cortex_shard__)\<close>. Every child is an aggregate with the operator of the original.
\<close>

theorem splitSum_grouping:
  "(Without expr \<longrightarrow>
      fst (fst (splitSum env summer expr)) =
        AggregateExpr (Op expr) NilNode (Param expr) [ShardLabel] True
      \<and> (\<forall>c \<in> set (fst (snd (fst (splitSum env summer expr)))).
            \<exists>sharded. c = Aggregate (AggregateExpr (Op expr) sharded NilNode (Grouping expr) True)))
   \<and> (\<not> Without expr \<and> Grouping expr \<noteq> [] \<longrightarrow>
        fst (fst (splitSum env summer expr)) =
          AggregateExpr (Op expr) NilNode (Param expr) (Grouping expr) False
        \<and> (\<forall>c \<in> set (fst (snd (fst (splitSum env summer expr)))).
              \<exists>sharded. c = Aggregate (AggregateExpr (Op expr) sharded NilNode
                                          (Grouping expr @ [ShardLabel]) False)))
   \<and> (\<not> Without expr \<and> Grouping expr = [] \<longrightarrow>
        fst (fst (splitSum env summer expr)) =
          AggregateExpr (Op expr) NilNode (Param expr) [ShardLabel] True
        \<and> (\<forall>c \<in> set (fst (snd (fst (splitSum env summer expr)))).
              \<exists>sharded. c = Aggregate (AggregateExpr (Op expr) sharded NilNode [ShardLabel] False)))"
proof (intro conjI impI)
  assume w: "Without expr"
  then show "fst (fst (splitSum env summer expr)) =
        AggregateExpr (Op expr) NilNode (Param expr) [ShardLabel] True"
    by (simp add: splitSum_parent splitSum_shapes_def)
  from w show "\<forall>c \<in> set (fst (snd (fst (splitSum env summer expr)))).
            \<exists>sharded. c = Aggregate (AggregateExpr (Op expr) sharded NilNode (Grouping expr) True)"
    by (intro splitSum_children) (simp add: splitSum_shapes_def)
next
  assume b: "\<not> Without expr \<and> Grouping expr \<noteq> []"
  then show "fst (fst (splitSum env summer expr)) =
          AggregateExpr (Op expr) NilNode (Param expr) (Grouping expr) False"
    by (simp add: splitSum_parent splitSum_shapes_def)
  from b show "\<forall>c \<in> set (fst (snd (fst (splitSum env summer expr)))).
              \<exists>sharded. c = Aggregate (AggregateExpr (Op expr) sharded NilNode
                                          (Grouping expr @ [ShardLabel]) False)"
    by (intro splitSum_children) (simp add: splitSum_shapes_def)
next
  assume n: "\<not> Without expr \<and> Grouping expr = []"
  then show "fst (fst (splitSum env summer expr)) =
          AggregateExpr (Op expr) NilNode (Param expr) [ShardLabel] True"
    by (simp add: splitSum_parent splitSum_shapes_def)
  from n show "\<forall>c \<in> set (fst (snd (fst (splitSum env summer expr)))).
              \<exists>sharded. c = Aggregate (AggregateExpr (Op expr) sharded NilNode [ShardLabel] False)"
    by (intro splitSum_children) (simp add: splitSum_shapes_def)
qed

theorem splitSum_grouping_witness:
  "fst (fst (splitSum exampleEnv (exampleSummer 2 exampleSquash) (exampleSum [''foo''] True))) =
     AggregateExpr SUM' NilNode NilNode [''__cortex_shard__''] True
   \<and> (\<exists>sharded. fst (snd (fst (splitSum exampleEnv (exampleSummer 2 exampleSquash)
                                  (exampleSum [''foo''] True)))) ! 1 =
         Aggregate (AggregateExpr SUM' sharded NilNode [''foo''] True))
   \<and> fst (fst (splitSum exampleEnv (exampleSummer 2 exampleSquash) (exampleSum [''foo''] False))) =
       AggregateExpr SUM' NilNode NilNode [''foo''] False
   \<and> (\<exists>sharded. fst (snd (fst (splitSum exampleEnv (exampleSummer 2 exampleSquash)
                                  (exampleSum [''foo''] False)))) ! 1 =
         Aggregate (AggregateExpr SUM' sharded NilNode [''foo'', ''__cortex_shard__''] False))
   \<and> fst (fst (splitSum exampleEnv (exampleSummer 2 exampleSquash) (exampleSum [] False))) =
       AggregateExpr SUM' NilNode NilNode [''__cortex_shard__''] True
   \<and> (\<exists>sharded. fst (snd (fst (splitSum exampleEnv (exampleSummer 2 exampleSquash)
                                  (exampleSum [] False)))) ! 1 =
         Aggregate (AggregateExpr SUM' sharded NilNode [''__cortex_shard__''] False))"
proof -
  let ?S = "exampleSummer 2 exampleSquash"
  let ?children = "\<lambda>e. fst (snd (fst (splitSum exampleEnv ?S e)))"
  have w: "Without (exampleSum [''foo''] True)"
    by (simp add: exampleSum_def)
  have b: "\<not> Without (exampleSum [''foo''] False) \<and> Grouping (exampleSum [''foo''] False) \<noteq> []"
    by (simp add: exampleSum_def)
  have n: "\<not> Without (exampleSum [] False) \<and> Grouping (exampleSum [] False) = []"
    by (simp add: exampleSum_def)
  have f: "Op (exampleSum g x) = SUM'" "Param (exampleSum g x) = NilNode"
    "Grouping (exampleSum g x) = g" for g x
    by (simp_all add: exampleSum_def)
  have "length (?children (exampleSum [''foo''] True)) = 2"
    "length (?children (exampleSum [''foo''] False)) = 2"
    "length (?children (exampleSum [] False)) = 2"
    by code_simp+
  then have m: "?children (exampleSum [''foo''] True) ! 1 \<in> set (?children (exampleSum [''foo''] True))"
    "?children (exampleSum [''foo''] False) ! 1 \<in> set (?children (exampleSum [''foo''] False))"
    "?children (exampleSum [] False) ! 1 \<in> set (?children (exampleSum [] False))"
    by simp_all
  from splitSum_grouping [of "exampleSum [''foo''] True" exampleEnv ?S] w m(1)
  have 1: "fst (fst (splitSum exampleEnv ?S (exampleSum [''foo''] True))) =
       AggregateExpr SUM' NilNode NilNode [''__cortex_shard__''] True
     \<and> (\<exists>sharded. ?children (exampleSum [''foo''] True) ! 1 =
           Aggregate (AggregateExpr SUM' sharded NilNode [''foo''] True))"
    unfolding f by (simp add: ShardLabel_def)
  from splitSum_grouping [of "exampleSum [''foo''] False" exampleEnv ?S] b m(2)
  have 2: "fst (fst (splitSum exampleEnv ?S (exampleSum [''foo''] False))) =
       AggregateExpr SUM' NilNode NilNode [''foo''] False
     \<and> (\<exists>sharded. ?children (exampleSum [''foo''] False) ! 1 =
           Aggregate (AggregateExpr SUM' sharded NilNode [''foo'', ''__cortex_shard__''] False))"
    unfolding f by (simp add: ShardLabel_def)
  from splitSum_grouping [of "exampleSum [] False" exampleEnv ?S] n m(3)
  have 3: "fst (fst (splitSum exampleEnv ?S (exampleSum [] False))) =
       AggregateExpr SUM' NilNode NilNode [''__cortex_shard__''] True
     \<and> (\<exists>sharded. ?children (exampleSum [] False) ! 1 =
           Aggregate (AggregateExpr SUM' sharded NilNode [''__cortex_shard__''] False))"
    unfolding f by (simp add: ShardLabel_def)
  from 1 2 3 show ?thesis by simp
qed

subsection \<open>The counter\<close>

lemma bitLen_le: "a < 2 ^ k \<Longrightarrow> bitLen a \<le> k"
proof (induction k arbitrary: a)
  case 0
  then show ?case by (subst bitLen.simps) simp
next
  case (Suc k)
  show ?case
  proof (cases "a \<le> 0")
    case True
    then show ?thesis by (subst bitLen.simps) simp
  next
    case False
    from Suc.prems have "a div 2 < 2 ^ k" by simp
    then have "bitLen (a div 2) \<le> k" by (rule Suc.IH)
    with False show ?thesis by (subst bitLen.simps) simp
  qed
qed

lemma bitLen_lower: "0 < a \<Longrightarrow> 2 ^ bitLen a \<le> 2 * a"
proof (induction a rule: bitLen.induct)
  case (1 a)
  show ?case
  proof (cases "a div 2 \<le> 0")
    case True
    with 1(2) have "a = 1" by simp
    then show ?thesis by (subst bitLen.simps, subst bitLen.simps) simp
  next
    case False
    with 1 have "2 ^ bitLen (a div 2) \<le> 2 * (a div 2)" by simp
    also have "\<dots> \<le> a" by simp
    finally show ?thesis using 1(2) by (subst bitLen.simps) simp
  qed
qed

lemma roundToFloat64_exact: "a < 2 ^ 53 \<Longrightarrow> roundToFloat64 a = a"
  using bitLen_le [of a 53] by (simp add: roundToFloat64_def)

lemma roundToFloat64_pos:
  assumes "0 < a"
  shows "0 < roundToFloat64 a"
proof (cases "bitLen a - 53 = 0")
  case True
  with assms show ?thesis by (simp add: roundToFloat64_def)
next
  case False
  define e where "e = bitLen a - 53"
  from False have b: "bitLen a = e + 53" and e: "0 < e" by (simp_all add: e_def)
  have "(2 :: int) ^ e * 2 ^ 53 \<le> 2 * a"
    using bitLen_lower [OF assms] by (simp add: b power_add)
  then have "4503599627370496 * (2 :: int) ^ e \<le> a" by simp
  moreover have "(0 :: int) < 2 ^ e" by simp
  ultimately have "(2 :: int) ^ e \<le> a" by linarith
  then have "0 < a div 2 ^ e"
    using pos_imp_zdiv_pos_iff [of "2 ^ e" a] by simp
  then have "0 < (if 2 ^ (e - 1) < a mod 2 ^ e \<or> (a mod 2 ^ e = 2 ^ (e - 1) \<and> odd (a div 2 ^ e))
                  then a div 2 ^ e + 1 else a div 2 ^ e) * (2 :: int) ^ e"
    by simp
  then show ?thesis
    using e by (simp add: roundToFloat64_def e_def [symmetric] Let_def)
qed

lemma float64_exact: "\<bar>sint n\<bar> < 2 ^ 53 \<Longrightarrow> float64 n = sint n"
  by (simp add: float64_def roundToFloat64_exact)

lemma float64_nonneg: "0 \<le> sint n \<Longrightarrow> 0 \<le> float64 n"
  using roundToFloat64_pos [of "sint n"]
  by (cases "sint n = 0") (simp_all add: float64_def roundToFloat64_exact)

lemma float64_neg: "sint n < 0 \<Longrightarrow> float64 n < 0"
  using roundToFloat64_pos [of "- sint n"] by (simp add: float64_def)

lemma Add_float64_nonneg:
  "0 \<le>s n \<Longrightarrow> Add (float64 n) adds = (None, adds @ [float64 n])"
  using float64_nonneg [of n] by (simp add: Add_def word_sle_eq)

lemma Add_float64_neg:
  "n <s 0 \<Longrightarrow> Add (float64 n) adds = (Some (RuntimePanic ''counter cannot decrease in value''), adds)"
  using float64_neg [of n] by (simp add: Add_def word_sless_alt)

lemma splitSum_loop_leg_nil:
  assumes "k < nat (sint (shards summer))" "snd (CloneNode env (Expr expr)) = None"
    "fst (shardLeg env summer expr k) = (NilNode, None)"
  shows "splitSum_loop env summer expr mkChild (word_of_nat k) children adds =
           ((children, Some (RuntimePanic ''interface conversion: interface is nil'')),
            adds @ snd (shardLeg env summer expr k))"
proof -
  have lt: "(word_of_nat k :: 64 word) <s shards summer"
    using assms(1) by (simp add: index_less_shards)
  obtain cloned where c: "CloneNode env (Expr expr) = (cloned, None)"
    using assms(2) by (cases "CloneNode env (Expr expr)") simp
  obtain added where m: "Map env (CopyWithCurShard summer (word_of_nat k)) cloned = ((NilNode, None), added)"
    using assms(3) c unfolding shardLeg_def
    by (cases "Map env (CopyWithCurShard summer (word_of_nat k)) cloned") auto
  have l: "shardLeg env summer expr k = ((NilNode, None), added)"
    by (simp add: shardLeg_def c m)
  show ?thesis
    by (subst splitSum_loop.simps) (simp add: lt c m l)
qed

lemma splitSum_all_legs:
  assumes "0 \<le>s shards summer"
    and "0 <s shards summer \<longrightarrow> snd (CloneNode env (Expr expr)) = None"
    and "\<forall>j < nat (sint (shards summer)). legOk env summer expr j"
  shows "splitSum env summer expr =
           ((fst (splitSum_shapes expr),
             map (\<lambda>j. snd (splitSum_shapes expr)
                        (AggregateExpr (Op expr) (fst (fst (shardLeg env summer expr j))) NilNode [] False))
               [0..<nat (sint (shards summer))],
             None),
            concat (map (\<lambda>j. snd (shardLeg env summer expr j)) [0..<nat (sint (shards summer))])
              @ [float64 (shards summer)])"
proof -
  let ?n = "nat (sint (shards summer))"
  obtain parent mkChild where sh: "splitSum_shapes expr = (parent, mkChild)"
    by (cases "splitSum_shapes expr")
  have stop: "\<not> (word_of_nat ?n :: 64 word) <s shards summer"
    by (simp add: index_less_shards)
  have "splitSum_loop env summer expr mkChild 0 [] [] =
          ((map (\<lambda>j. mkChild (AggregateExpr (Op expr) (fst (fst (shardLeg env summer expr j))) NilNode [] False)) [0..<?n], None),
           concat (map (\<lambda>j. snd (shardLeg env summer expr j)) [0..<?n]))"
  proof (cases "0 <s shards summer")
    case False
    then have "?n = 0" by (simp add: word_sless_alt)
    with False show ?thesis by (simp add: splitSum_loop_stop)
  next
    case True
    with assms(2) have c: "snd (CloneNode env (Expr expr)) = None" by simp
    have "splitSum_loop env summer expr mkChild (word_of_nat 0) [] [] =
           splitSum_loop env summer expr mkChild (word_of_nat ?n)
             ([] @ map (\<lambda>j. mkChild (AggregateExpr (Op expr) (fst (fst (shardLeg env summer expr j))) NilNode [] False)) [0..<?n])
             ([] @ concat (map (\<lambda>j. snd (shardLeg env summer expr j)) [0..<?n]))"
      using c assms(3) by (intro splitSum_loop_legs) simp_all
    with stop show ?thesis by (simp add: splitSum_loop_stop)
  qed
  then show ?thesis
    unfolding splitSum_def sh by (simp add: Add_float64_nonneg [OF assms(1)])
qed

lemma splitSum_clone_error:
  assumes "0 <s shards summer" "snd (CloneNode env (Expr expr)) = Some err"
  shows "splitSum env summer expr = ((fst (splitSum_shapes expr), [], Some err), [])"
proof -
  obtain parent mkChild where sh: "splitSum_shapes expr = (parent, mkChild)"
    by (cases "splitSum_shapes expr")
  show ?thesis
    unfolding splitSum_def sh using assms by (simp add: splitSum_loop_clone_error)
qed

lemma splitSum_leg_stops:
  assumes "snd (CloneNode env (Expr expr)) = None" "m < nat (sint (shards summer))"
    and "\<forall>j < m. legOk env summer expr j"
    and "snd (fst (shardLeg env summer expr m)) = Some err
         \<or> (fst (shardLeg env summer expr m) = (NilNode, None)
            \<and> err = RuntimePanic ''interface conversion: interface is nil'')"
  shows "splitSum env summer expr =
           ((fst (splitSum_shapes expr),
             map (\<lambda>j. snd (splitSum_shapes expr)
                        (AggregateExpr (Op expr) (fst (fst (shardLeg env summer expr j))) NilNode [] False))
               [0..<m],
             Some err),
            concat (map (\<lambda>j. snd (shardLeg env summer expr j)) [0..<Suc m]))"
proof -
  obtain parent mkChild where sh: "splitSum_shapes expr = (parent, mkChild)"
    by (cases "splitSum_shapes expr")
  have "splitSum_loop env summer expr mkChild (word_of_nat 0) [] [] =
           splitSum_loop env summer expr mkChild (word_of_nat m)
             ([] @ map (\<lambda>j. mkChild (AggregateExpr (Op expr) (fst (fst (shardLeg env summer expr j))) NilNode [] False)) [0..<m])
             ([] @ concat (map (\<lambda>j. snd (shardLeg env summer expr j)) [0..<m]))"
    using assms(1,2,3) by (intro splitSum_loop_legs) simp_all
  also have "\<dots> =
      ((map (\<lambda>j. mkChild (AggregateExpr (Op expr) (fst (fst (shardLeg env summer expr j))) NilNode [] False)) [0..<m], Some err),
       concat (map (\<lambda>j. snd (shardLeg env summer expr j)) [0..<m]) @ snd (shardLeg env summer expr m))"
    using assms(1,2,4) by (auto simp: splitSum_loop_leg_error splitSum_loop_leg_nil)
  finally show ?thesis
    unfolding splitSum_def sh by simp
qed

lemma splitSum_no_legs:
  assumes "\<not> 0 <s shards summer"
  shows "splitSum env summer expr =
           (case Add (float64 (shards summer)) [] of
              (Some panic, adds) \<Rightarrow> ((fst (splitSum_shapes expr), [], Some panic), adds)
            | (None, adds) \<Rightarrow> ((fst (splitSum_shapes expr), [], None), adds))"
proof -
  obtain parent mkChild where sh: "splitSum_shapes expr = (parent, mkChild)"
    by (cases "splitSum_shapes expr")
  show ?thesis
    unfolding splitSum_def sh using assms
    by (simp add: splitSum_loop_stop split: prod.splits option.splits)
qed

lemma splitSum_shapes_parent:
  "Op (fst (splitSum_shapes expr)) = Op expr" "Param (fst (splitSum_shapes expr)) = Param expr"
  by (simp_all add: splitSum_shapes_def)

lemma shardSum_of_splitSum:
  "splitSum env summer expr = ((parent, children, Some err), adds) \<Longrightarrow>
     shardSum env summer expr = ((NilNode, Some err), adds)"
  "splitSum env summer expr = ((parent, children, None), adds) \<Longrightarrow>
     shardSum env summer expr =
       ((case squash summer children of
           (combinedSums, Some err) \<Rightarrow> (NilNode, Some err)
         | (combinedSums, None) \<Rightarrow>
             (Aggregate (AggregateExpr (Op parent) combinedSums (Param parent)
                           (Grouping parent) (Without parent)), None)), adds)"
  by (simp_all add: shardSum_def split: prod.splits option.splits)

lemma legOk_exampleEnv: "legOk exampleEnv summer (exampleSum g w) j"
  by (simp add: legOk_def shardLeg_def exampleEnv_def exampleSum_def CopyWithCurShard_def
        shardVectorSelector_def NewMatcher_def)

text \<open>
  Claim C1, as the code has it. \<open>shardSum\<close> is one split. When the shard count is not
  negative, the clone succeeds and the mapping of every shard returns a node and no error,
  the amounts added to the counter are those added inside the legs, followed by
  \<open>float64(shards)\<close>, once, which is the shard count itself when that is below \<open>2^53\<close>;
  the increment is made by \<open>splitSum\<close>, before the squasher is called, so it is there
  whether the squasher succeeds or fails, and a failure of the squasher is returned as it
  is, with a nil node. When the clone fails, or the mapping of shard \<open>m\<close> fails after the
  shards before it succeeded, the error is returned as it is, with a nil node, and the
  amounts are only those added inside the legs mapped so far: the increment of this split
  is not made. Nor is it made when the mapping of a shard returns nil with no error (the
  type assertion panics) or when the shard count is negative (\<open>Add\<close> panics).
\<close>

theorem shardSum_counter:
  "(0 \<le>s shards summer
      \<and> (0 <s shards summer \<longrightarrow> snd (CloneNode env (Expr expr)) = None)
      \<and> (\<forall>j < nat (sint (shards summer)). legOk env summer expr j) \<longrightarrow>
      snd (shardSum env summer expr) =
        concat (map (\<lambda>j. snd (shardLeg env summer expr j)) [0..<nat (sint (shards summer))])
          @ [float64 (shards summer)]
      \<and> (sint (shards summer) < 2 ^ 53 \<longrightarrow> float64 (shards summer) = sint (shards summer))
      \<and> fst (shardSum env summer expr) =
          (case squash summer (fst (snd (fst (splitSum env summer expr)))) of
             (combinedSums, Some err) \<Rightarrow> (NilNode, Some err)
           | (combinedSums, None) \<Rightarrow>
               (Aggregate (AggregateExpr (Op expr) combinedSums (Param expr)
                             (Grouping (fst (splitSum_shapes expr)))
                             (Without (fst (splitSum_shapes expr)))), None)))
   \<and> (0 <s shards summer \<and> snd (CloneNode env (Expr expr)) = Some err \<longrightarrow>
        shardSum env summer expr = ((NilNode, Some err), []))
   \<and> (snd (CloneNode env (Expr expr)) = None \<and> m < nat (sint (shards summer))
        \<and> (\<forall>j < m. legOk env summer expr j)
        \<and> snd (fst (shardLeg env summer expr m)) = Some err \<longrightarrow>
        shardSum env summer expr =
          ((NilNode, Some err),
           concat (map (\<lambda>j. snd (shardLeg env summer expr j)) [0..<Suc m])))
   \<and> (snd (CloneNode env (Expr expr)) = None \<and> m < nat (sint (shards summer))
        \<and> (\<forall>j < m. legOk env summer expr j)
        \<and> fst (shardLeg env summer expr m) = (NilNode, None) \<longrightarrow>
        shardSum env summer expr =
          ((NilNode, Some (RuntimePanic ''interface conversion: interface is nil'')),
           concat (map (\<lambda>j. snd (shardLeg env summer expr j)) [0..<Suc m])))
   \<and> (shards summer <s 0 \<longrightarrow>
        shardSum env summer expr =
          ((NilNode, Some (RuntimePanic ''counter cannot decrease in value'')), []))"
proof (intro conjI impI)
  assume h: "0 \<le>s shards summer
      \<and> (0 <s shards summer \<longrightarrow> snd (CloneNode env (Expr expr)) = None)
      \<and> (\<forall>j < nat (sint (shards summer)). legOk env summer expr j)"
  then have s: "splitSum env summer expr =
           ((fst (splitSum_shapes expr),
             map (\<lambda>j. snd (splitSum_shapes expr)
                        (AggregateExpr (Op expr) (fst (fst (shardLeg env summer expr j))) NilNode [] False))
               [0..<nat (sint (shards summer))],
             None),
            concat (map (\<lambda>j. snd (shardLeg env summer expr j)) [0..<nat (sint (shards summer))])
              @ [float64 (shards summer)])"
    by (intro splitSum_all_legs) simp_all
  note r = shardSum_of_splitSum(2) [OF s]
  show "snd (shardSum env summer expr) =
        concat (map (\<lambda>j. snd (shardLeg env summer expr j)) [0..<nat (sint (shards summer))])
          @ [float64 (shards summer)]"
    unfolding r by simp
  show "fst (shardSum env summer expr) =
          (case squash summer (fst (snd (fst (splitSum env summer expr)))) of
             (combinedSums, Some err) \<Rightarrow> (NilNode, Some err)
           | (combinedSums, None) \<Rightarrow>
               (Aggregate (AggregateExpr (Op expr) combinedSums (Param expr)
                             (Grouping (fst (splitSum_shapes expr)))
                             (Without (fst (splitSum_shapes expr)))), None))"
    unfolding r unfolding s by (simp add: splitSum_shapes_parent)
  assume "sint (shards summer) < 2 ^ 53"
  with h show "float64 (shards summer) = sint (shards summer)"
    by (intro float64_exact) (simp add: word_sle_eq)
next
  assume "0 <s shards summer \<and> snd (CloneNode env (Expr expr)) = Some err"
  then have "splitSum env summer expr = ((fst (splitSum_shapes expr), [], Some err), [])"
    by (intro splitSum_clone_error) simp_all
  then show "shardSum env summer expr = ((NilNode, Some err), [])"
    by (rule shardSum_of_splitSum(1))
next
  assume h: "snd (CloneNode env (Expr expr)) = None \<and> m < nat (sint (shards summer))
        \<and> (\<forall>j < m. legOk env summer expr j)
        \<and> snd (fst (shardLeg env summer expr m)) = Some err"
  then have "splitSum env summer expr =
           ((fst (splitSum_shapes expr),
             map (\<lambda>j. snd (splitSum_shapes expr)
                        (AggregateExpr (Op expr) (fst (fst (shardLeg env summer expr j))) NilNode [] False))
               [0..<m],
             Some err),
            concat (map (\<lambda>j. snd (shardLeg env summer expr j)) [0..<Suc m]))"
    by (intro splitSum_leg_stops) simp_all
  then show "shardSum env summer expr =
          ((NilNode, Some err),
           concat (map (\<lambda>j. snd (shardLeg env summer expr j)) [0..<Suc m]))"
    by (rule shardSum_of_splitSum(1))
next
  let ?p = "RuntimePanic ''interface conversion: interface is nil''"
  assume h: "snd (CloneNode env (Expr expr)) = None \<and> m < nat (sint (shards summer))
        \<and> (\<forall>j < m. legOk env summer expr j)
        \<and> fst (shardLeg env summer expr m) = (NilNode, None)"
  then have "splitSum env summer expr =
           ((fst (splitSum_shapes expr),
             map (\<lambda>j. snd (splitSum_shapes expr)
                        (AggregateExpr (Op expr) (fst (fst (shardLeg env summer expr j))) NilNode [] False))
               [0..<m],
             Some ?p),
            concat (map (\<lambda>j. snd (shardLeg env summer expr j)) [0..<Suc m]))"
    by (intro splitSum_leg_stops) simp_all
  then show "shardSum env summer expr =
          ((NilNode, Some ?p),
           concat (map (\<lambda>j. snd (shardLeg env summer expr j)) [0..<Suc m]))"
    by (rule shardSum_of_splitSum(1))
next
  assume neg: "shards summer <s 0"
  then have "\<not> 0 <s shards summer" by (simp add: word_sless_alt)
  then have "splitSum env summer expr =
      ((fst (splitSum_shapes expr), [], Some (RuntimePanic ''counter cannot decrease in value'')), [])"
    by (simp add: splitSum_no_legs Add_float64_neg [OF neg])
  then show "shardSum env summer expr =
          ((NilNode, Some (RuntimePanic ''counter cannot decrease in value'')), [])"
    by (rule shardSum_of_splitSum(1))
qed

theorem shardSum_counter_witness:
  "shardSum exampleEnv (exampleSummer 2 failingSquash) (exampleSum [] False) =
     ((NilNode, Some (External ''squash failed'')), [2])
   \<and> shardSum cloneFailEnv (exampleSummer 2 exampleSquash) (exampleSum [] False) =
       ((NilNode, Some (External ''clone failed'')), [])
   \<and> shardSum legFailEnv (exampleSummer 3 exampleSquash) (exampleSum [] False) =
       ((NilNode, Some (External ''map failed'')), [2, 2])
   \<and> shardSum nilLegEnv (exampleSummer 3 exampleSquash) (exampleSum [] False) =
       ((NilNode, Some (RuntimePanic ''interface conversion: interface is nil'')), [])
   \<and> shardSum exampleEnv (exampleSummer (- 3) exampleSquash) (exampleSum [] False) =
       ((NilNode, Some (RuntimePanic ''counter cannot decrease in value'')), [])"
proof -
  let ?E = "exampleSum [] False"
  let ?F = "exampleSummer 2 failingSquash"
  let ?S = "exampleSummer 2 exampleSquash"
  let ?T = "exampleSummer 3 exampleSquash"
  let ?N = "exampleSummer (- 3) exampleSquash"
  have n: "nat (sint (shards ?F)) = 2" "nat (sint (shards ?T)) = 3"
    by (simp_all add: exampleSummer_def)
  have l: "legOk exampleEnv ?F ?E 0" "legOk exampleEnv ?F ?E 1"
    by code_simp+
  have "\<forall>j < (2 :: nat). legOk exampleEnv ?F ?E j"
    using l by (auto simp: less_Suc_eq numeral_2_eq_2)
  then have a: "0 \<le>s shards ?F
      \<and> (0 <s shards ?F \<longrightarrow> snd (CloneNode exampleEnv (Expr ?E)) = None)
      \<and> (\<forall>j < nat (sint (shards ?F)). legOk exampleEnv ?F ?E j)"
    unfolding n by (simp add: exampleEnv_def exampleSummer_def word_sle_eq)
  have a1: "snd (shardLeg exampleEnv ?F ?E j) = []" for j
    by (simp add: shardLeg_def exampleEnv_def)
  have a2: "squash ?F xs = (NilNode, Some (External ''squash failed''))" "sint (shards ?F) = 2" for xs
    by (simp_all add: exampleSummer_def failingSquash_def)
  from shardSum_counter [of ?F exampleEnv ?E] a
  have 1: "shardSum exampleEnv ?F ?E = ((NilNode, Some (External ''squash failed'')), [2])"
    by (simp add: n a1 a2 prod_eq_iff)
  have b: "0 <s shards ?S \<and> snd (CloneNode cloneFailEnv (Expr ?E)) = Some (External ''clone failed'')"
    by (simp add: exampleSummer_def cloneFailEnv_def word_sless_alt)
  from shardSum_counter [of ?S cloneFailEnv ?E "External ''clone failed''"] b
  have 2: "shardSum cloneFailEnv ?S ?E = ((NilNode, Some (External ''clone failed'')), [])"
    by blast
  have l0: "legOk legFailEnv ?T ?E 0"
    by code_simp
  have l1: "snd (fst (shardLeg legFailEnv ?T ?E 1)) = Some (External ''map failed'')"
    by code_simp
  have c: "snd (CloneNode legFailEnv (Expr ?E)) = None \<and> 1 < nat (sint (shards ?T))
        \<and> (\<forall>j < 1. legOk legFailEnv ?T ?E j)
        \<and> snd (fst (shardLeg legFailEnv ?T ?E 1)) = Some (External ''map failed'')"
    unfolding n using l0 l1 by (simp add: legFailEnv_def exampleEnv_def)
  have c1: "snd (shardLeg legFailEnv ?T ?E j) = [2]" for j
    by (simp add: shardLeg_def legFailEnv_def)
  from shardSum_counter [of ?T legFailEnv ?E "External ''map failed''" 1] c
  have 3: "shardSum legFailEnv ?T ?E = ((NilNode, Some (External ''map failed'')), [2, 2])"
    by (simp add: c1)
  have d: "snd (CloneNode nilLegEnv (Expr ?E)) = None \<and> 0 < nat (sint (shards ?T))
        \<and> (\<forall>j < 0. legOk nilLegEnv ?T ?E j)
        \<and> fst (shardLeg nilLegEnv ?T ?E 0) = (NilNode, None)"
    unfolding n by (simp add: nilLegEnv_def exampleEnv_def shardLeg_def)
  have d1: "snd (shardLeg nilLegEnv ?T ?E j) = []" for j
    by (simp add: shardLeg_def nilLegEnv_def)
  from shardSum_counter [of ?T nilLegEnv ?E _ 0] d
  have 4: "shardSum nilLegEnv ?T ?E =
      ((NilNode, Some (RuntimePanic ''interface conversion: interface is nil'')), [])"
    by (simp add: d1)
  have e: "shards ?N <s 0"
    by (simp add: exampleSummer_def word_sless_alt)
  from shardSum_counter [of ?N exampleEnv ?E] e
  have 5: "shardSum exampleEnv ?N ?E =
      ((NilNode, Some (RuntimePanic ''counter cannot decrease in value'')), [])"
    by blast
  from 1 2 3 4 5 show ?thesis by simp
qed

text \<open>
  Claim C1, as the specification has it, says that the counter is incremented by the shard
  count, and only after the squasher has succeeded. With two shards and a squasher that
  fails, \<open>shardSum\<close> returns the squasher's error and the counter has been incremented
  by 2. With a shard count of \<open>-1\<close> nothing fails in the clone, the mapping or the
  squasher, and the counter is not incremented. With \<open>2^53 + 1\<close> shards the split
  succeeds and the counter is incremented by \<open>2^53\<close>.
\<close>

theorem shardSum_counter_counterexample:
  "snd (fst (shardSum exampleEnv (exampleSummer 2 failingSquash) (exampleSum [] False))) =
     Some (External ''squash failed'')
   \<and> snd (shardSum exampleEnv (exampleSummer 2 failingSquash) (exampleSum [] False)) = [2]
   \<and> snd (shardSum exampleEnv (exampleSummer (- 1) exampleSquash) (exampleSum [] False)) = []
   \<and> snd (fst (shardSum exampleEnv (exampleSummer 9007199254740993 exampleSquash)
                  (exampleSum [] False))) = None
   \<and> snd (shardSum exampleEnv (exampleSummer 9007199254740993 exampleSquash)
             (exampleSum [] False)) = [9007199254740992]"
proof -
  let ?E = "exampleSum [] False"
  let ?B = "exampleSummer 9007199254740993 exampleSquash"
  have 1: "snd (fst (shardSum exampleEnv (exampleSummer 2 failingSquash) ?E)) =
             Some (External ''squash failed'')
     \<and> snd (shardSum exampleEnv (exampleSummer 2 failingSquash) ?E) = [2]
     \<and> snd (shardSum exampleEnv (exampleSummer (- 1) exampleSquash) ?E) = []"
    by code_simp
  have p: "0 \<le>s shards ?B"
    by (simp add: exampleSummer_def word_sle_eq)
  have c: "0 <s shards ?B \<longrightarrow> snd (CloneNode exampleEnv (Expr ?E)) = None"
    by (simp add: exampleEnv_def)
  have l: "\<forall>j < nat (sint (shards ?B)). legOk exampleEnv ?B ?E j"
    by (simp add: legOk_exampleEnv)
  have a: "snd (shardLeg exampleEnv ?B ?E j) = []" for j
    by (simp add: shardLeg_def exampleEnv_def)
  have f: "float64 (shards ?B) = 9007199254740992"
    unfolding exampleSummer_def by code_simp
  have q: "squash ?B xs = (OtherNode ''legs'' xs, None)" for xs
    by (simp add: exampleSummer_def exampleSquash_def)
  note s = splitSum_all_legs [OF p c l]
  from shardSum_of_splitSum(2) [OF s]
  have 2: "snd (fst (shardSum exampleEnv ?B ?E)) = None
     \<and> snd (shardSum exampleEnv ?B ?E) = [9007199254740992]"
    by (simp add: a f q)
  from 1 2 show ?thesis by simp
qed

text \<open>
  Claim C10, as the code has it. \<open>NewShardSummer\<close> does not look at the shard count:
  with a squasher, and a registerer that is nil or does not hold the counter's name yet,
  it returns a summer with the given shard count and no error, for every shard count. It
  returns an error exactly when the squasher is nil. With a squasher and a registerer that
  holds the counter's name already, it panics in the registration. With a shard count of
  zero a split makes no leg: the children are empty, the squasher is called with no legs,
  and zero is added to the counter. With a negative shard count a split makes no leg and
  panics in \<open>Add\<close>: nothing is added to the counter and the squasher is not called.
\<close>

theorem NewShardSummer_no_validation:
  "((\<forall>reg. registerer = Some reg \<longrightarrow> ''cortex_frontend_sharded_queries_total'' \<notin> set reg) \<longrightarrow>
      (\<exists>summer registerer'.
          NewShardSummer n (Some sq) registerer = ((Some summer, None), registerer')
          \<and> shards summer = n \<and> currentShard summer = None \<and> squash summer = sq))
   \<and> ((snd (fst (NewShardSummer n squasher registerer)) = Some SquasherRequired)
        = (squasher = None))
   \<and> (registerer = Some reg \<and> ''cortex_frontend_sharded_queries_total'' \<in> set reg \<longrightarrow>
        NewShardSummer n (Some sq) registerer =
          ((None, Some (RuntimePanic ''duplicate metrics collector registration attempted'')),
           registerer))
   \<and> (shards summer = 0 \<longrightarrow>
        splitSum env summer expr = ((fst (splitSum_shapes expr), [], None), [0])
        \<and> shardSum env summer expr =
            ((case squash summer [] of
                (combinedSums, Some err) \<Rightarrow> (NilNode, Some err)
              | (combinedSums, None) \<Rightarrow>
                  (Aggregate (AggregateExpr (Op expr) combinedSums (Param expr)
                                (Grouping (fst (splitSum_shapes expr)))
                                (Without (fst (splitSum_shapes expr)))), None)),
             [0]))
   \<and> (shards summer <s 0 \<longrightarrow>
        splitSum env summer expr =
          ((fst (splitSum_shapes expr), [],
            Some (RuntimePanic ''counter cannot decrease in value'')), [])
        \<and> shardSum env summer expr =
            ((NilNode, Some (RuntimePanic ''counter cannot decrease in value'')), []))"
proof (intro conjI impI)
  assume "\<forall>reg. registerer = Some reg \<longrightarrow> ''cortex_frontend_sharded_queries_total'' \<notin> set reg"
  then show "\<exists>summer registerer'.
          NewShardSummer n (Some sq) registerer = ((Some summer, None), registerer')
          \<and> shards summer = n \<and> currentShard summer = None \<and> squash summer = sq"
    by (cases registerer) (simp_all add: NewShardSummer_def promauto_NewCounter_def BuildFQName_def)
next
  show "(snd (fst (NewShardSummer n squasher registerer)) = Some SquasherRequired)
        = (squasher = None)"
    by (cases squasher; cases registerer)
       (simp_all add: NewShardSummer_def promauto_NewCounter_def)
next
  assume "registerer = Some reg \<and> ''cortex_frontend_sharded_queries_total'' \<in> set reg"
  then show "NewShardSummer n (Some sq) registerer =
          ((None, Some (RuntimePanic ''duplicate metrics collector registration attempted'')),
           registerer)"
    by (simp add: NewShardSummer_def promauto_NewCounter_def BuildFQName_def)
next
  assume z: "shards summer = 0"
  then have stop: "\<not> 0 <s shards summer" by simp
  have f: "float64 0 = 0" by code_simp
  show s: "splitSum env summer expr = ((fst (splitSum_shapes expr), [], None), [0])"
    using stop by (simp add: splitSum_no_legs z f Add_def)
  show "shardSum env summer expr =
            ((case squash summer [] of
                (combinedSums, Some err) \<Rightarrow> (NilNode, Some err)
              | (combinedSums, None) \<Rightarrow>
                  (Aggregate (AggregateExpr (Op expr) combinedSums (Param expr)
                                (Grouping (fst (splitSum_shapes expr)))
                                (Without (fst (splitSum_shapes expr)))), None)),
             [0])"
    unfolding shardSum_of_splitSum(2) [OF s] by (simp add: splitSum_shapes_parent)
next
  assume neg: "shards summer <s 0"
  then have "\<not> 0 <s shards summer" by (simp add: word_sless_alt)
  then show s: "splitSum env summer expr =
      ((fst (splitSum_shapes expr), [], Some (RuntimePanic ''counter cannot decrease in value'')), [])"
    by (simp add: splitSum_no_legs Add_float64_neg [OF neg])
  show "shardSum env summer expr =
          ((NilNode, Some (RuntimePanic ''counter cannot decrease in value'')), [])"
    using s by (rule shardSum_of_splitSum(1))
qed

theorem NewShardSummer_no_validation_witness:
  "(\<exists>summer registerer'.
       NewShardSummer (- 3) (Some exampleSquash) None = ((Some summer, None), registerer')
       \<and> shards summer = - 3 \<and> currentShard summer = None \<and> squash summer = exampleSquash)
   \<and> (\<exists>summer registerer'.
         NewShardSummer 0 (Some exampleSquash) (Some [''up'']) = ((Some summer, None), registerer')
         \<and> shards summer = 0 \<and> currentShard summer = None \<and> squash summer = exampleSquash)
   \<and> snd (fst (NewShardSummer 4 None (Some []))) = Some SquasherRequired
   \<and> NewShardSummer 4 (Some exampleSquash) (Some [''cortex_frontend_sharded_queries_total'']) =
       ((None, Some (RuntimePanic ''duplicate metrics collector registration attempted'')),
        Some [''cortex_frontend_sharded_queries_total''])
   \<and> shardSum exampleEnv (exampleSummer 0 exampleSquash) (exampleSum [''foo''] False) =
       ((Aggregate (AggregateExpr SUM' (OtherNode ''legs'' []) NilNode [''foo''] False), None), [0])
   \<and> shardSum exampleEnv (exampleSummer (- 3) exampleSquash) (exampleSum [''foo''] False) =
       ((NilNode, Some (RuntimePanic ''counter cannot decrease in value'')), [])"
proof -
  let ?N = "exampleSummer (- 3) exampleSquash"
  let ?Z = "exampleSummer 0 exampleSquash"
  let ?E = "exampleSum [''foo''] False"
  let ?name = "''cortex_frontend_sharded_queries_total''"
  have r0: "\<forall>reg. (None :: registry option) = Some reg \<longrightarrow> ?name \<notin> set reg"
    by simp
  have r1: "\<forall>reg. Some [''up''] = Some reg \<longrightarrow> ?name \<notin> set reg"
    by simp
  note 1 = NewShardSummer_no_validation
    [of None "- 3" exampleSquash None "[]" ?N exampleEnv ?E, THEN conjunct1, THEN mp, OF r0]
  note 2 = NewShardSummer_no_validation
    [of "Some [''up'']" 0 exampleSquash None "[]" ?N exampleEnv ?E, THEN conjunct1, THEN mp, OF r1]
  have 3: "snd (fst (NewShardSummer 4 None (Some []))) = Some SquasherRequired"
    using NewShardSummer_no_validation
      [of "Some []" 4 exampleSquash None "[]" ?N exampleEnv ?E, THEN conjunct2, THEN conjunct1]
    by simp
  have d: "Some [?name] = Some [?name] \<and> ?name \<in> set [?name]"
    by simp
  note 4 = NewShardSummer_no_validation
    [of "Some [?name]" 4 exampleSquash None "[?name]" ?N exampleEnv ?E,
     THEN conjunct2, THEN conjunct2, THEN conjunct1, THEN mp, OF d]
  have z: "shards ?Z = 0" and ng: "shards ?N <s 0"
    by (simp_all add: exampleSummer_def word_sless_alt)
  have f: "squash (exampleSummer k exampleSquash) [] = (OtherNode ''legs'' [], None)"
    "Grouping (fst (splitSum_shapes ?E)) = [''foo'']" "Without (fst (splitSum_shapes ?E)) = False"
    "Op ?E = SUM'" "Param ?E = NilNode" for k
    by (simp_all add: exampleSummer_def exampleSquash_def exampleSum_def splitSum_shapes_def)
  have 5: "shardSum exampleEnv ?Z ?E =
       ((Aggregate (AggregateExpr SUM' (OtherNode ''legs'' []) NilNode [''foo''] False), None), [0])"
    using NewShardSummer_no_validation
      [of None 0 exampleSquash None "[]" ?Z exampleEnv ?E,
       THEN conjunct2, THEN conjunct2, THEN conjunct2, THEN conjunct1, THEN mp, OF z,
       THEN conjunct2]
    unfolding f by simp
  note 6 = NewShardSummer_no_validation
    [of None 0 exampleSquash None "[]" ?N exampleEnv ?E,
     THEN conjunct2, THEN conjunct2, THEN conjunct2, THEN conjunct2, THEN mp, OF ng,
     THEN conjunct2]
  from 1 2 3 4 5 6 show ?thesis
    by (intro conjI)
qed

text \<open>
  Claim C10, as it is stated, says that only a nil squasher makes the construction fail
  and that a split with a negative shard count calls the squasher and adds the count to
  the counter. A second construction on the registerer of a first one panics, and a split
  with \<open>-2\<close> shards panics in \<open>Add\<close> before the squasher is reached.
\<close>

theorem NewShardSummer_no_validation_counterexample:
  "snd (NewShardSummer 2 (Some exampleSquash) (Some [])) =
     Some [''cortex_frontend_sharded_queries_total'']
   \<and> fst (NewShardSummer 2 (Some exampleSquash) (Some [''cortex_frontend_sharded_queries_total''])) =
       (None, Some (RuntimePanic ''duplicate metrics collector registration attempted''))
   \<and> shardSum exampleEnv (exampleSummer (- 2) exampleSquash) (exampleSum [''foo''] True) =
       ((NilNode, Some (RuntimePanic ''counter cannot decrease in value'')), [])"
proof -
  have "snd (NewShardSummer 2 (Some exampleSquash) (Some [])) =
          Some [''cortex_frontend_sharded_queries_total'']"
    "fst (NewShardSummer 2 (Some exampleSquash) (Some [''cortex_frontend_sharded_queries_total''])) =
       (None, Some (RuntimePanic ''duplicate metrics collector registration attempted''))"
    by (simp_all add: NewShardSummer_def promauto_NewCounter_def BuildFQName_def)
  moreover have "shardSum exampleEnv (exampleSummer (- 2) exampleSquash) (exampleSum [''foo''] True) =
       ((NilNode, Some (RuntimePanic ''counter cannot decrease in value'')), [])"
    by code_simp
  ultimately show ?thesis by simp
qed

end
